theory Spec2Isabelle
  imports Main
begin

section \<open>Transactions, inputs and outputs\<close>

text \<open>
  The worker reads three things of a dashcore \<open>Transaction\<close>: \<open>tx.inputs\<close>,
  \<open>tx.outputs\<close> and the \<open>script\<close> of each input and output. A script is an object
  or absent (\<open>null\<close>: a coinbase input has none), so the field is an option. The records
  are used through their schemes: whatever else an object carries is its \<open>more\<close> part.
  The two fields of a transaction are arrays: lists of inputs and of outputs where the
  arrays are values, addresses where they are cells of a store.
\<close>

record 's Input =
  script :: "'s option"

record 's Output =
  script :: "'s option"

record ('is, 'os) Transaction =
  inputs :: "'is"
  outputs :: "'os"

text \<open>Reading a property of \<open>null\<close> or \<open>undefined\<close> throws a \<open>TypeError\<close>.\<close>

datatype error = TypeError

section \<open>Array helpers\<close>

text \<open>\<open>Array.prototype.includes\<close> on an array of strings (\<open>includes\<close> is a keyword of Isabelle).\<close>

definition includes_array :: "'a list \<Rightarrow> 'a \<Rightarrow> bool" where
  "includes_array xs x \<longleftrightarrow> x \<in> set xs"

text \<open>
  \<open>Array.prototype.forEach\<close> with a callback that updates the variables it closes over
  (the state \<open>st\<close>) and may throw: the first throw ends the loop.
\<close>

fun forEach :: "('a \<Rightarrow> 'st \<Rightarrow> error + 'st) \<Rightarrow> 'a list \<Rightarrow> 'st \<Rightarrow> error + 'st" where
  "forEach f [] st = Inr st"
| "forEach f (x # xs) st =
     (case f x st of
        Inl e \<Rightarrow> Inl e
      | Inr st' \<Rightarrow> forEach f xs st')"

section \<open>filterWalletTransactions\<close>

text \<open>
  \<open>script.toAddress(network).toString()\<close> belongs to dashcore-lib; it is the parameter
  \<open>toAddress\<close>. The callbacks close over \<open>spentOutputs\<close>, \<open>unspentOutputs\<close> and
  \<open>isWalletTransaction\<close>; each callback gets and returns the variables it assigns.
\<close>

definition inputCallback ::
  "('s \<Rightarrow> string \<Rightarrow> string) \<Rightarrow> string list \<Rightarrow> string \<Rightarrow>
   ('s, 'a) Input_scheme \<Rightarrow> ('s, 'a) Input_scheme list \<times> bool \<Rightarrow>
   error + ('s, 'a) Input_scheme list \<times> bool" where
  "inputCallback toAddress addressList network input st =
     (case st of (spentOutputs, isWalletTransaction) \<Rightarrow>
        (case Input.script input of
           None \<Rightarrow> Inr (spentOutputs, isWalletTransaction)
         | Some s \<Rightarrow>
             (let addr = toAddress s network in
              if includes_array addressList addr
              then Inr (spentOutputs @ [input], True)
              else Inr (spentOutputs, isWalletTransaction))))"

definition outputCallback ::
  "('s \<Rightarrow> string \<Rightarrow> string) \<Rightarrow> string list \<Rightarrow> string \<Rightarrow>
   ('s, 'b) Output_scheme \<Rightarrow> ('s, 'b) Output_scheme list \<times> bool \<Rightarrow>
   error + ('s, 'b) Output_scheme list \<times> bool" where
  "outputCallback toAddress addressList network output st =
     (case st of (unspentOutputs, isWalletTransaction) \<Rightarrow>
        (case Output.script output of
           None \<Rightarrow> Inl TypeError
         | Some s \<Rightarrow>
             (let addr = toAddress s network in
              if includes_array addressList addr
              then Inr (unspentOutputs @ [output], True)
              else Inr (unspentOutputs, isWalletTransaction))))"

text \<open>
  The callback of \<open>transactions.filter\<close>: it returns \<open>isWalletTransaction\<close> and leaves
  its pushes in the two arrays.
\<close>

definition filterCallback ::
  "('s \<Rightarrow> string \<Rightarrow> string) \<Rightarrow> string list \<Rightarrow> string \<Rightarrow>
   (('s, 'a) Input_scheme list, ('s, 'b) Output_scheme list, 'c) Transaction_scheme \<Rightarrow>
   ('s, 'a) Input_scheme list \<times> ('s, 'b) Output_scheme list \<Rightarrow>
   error + (bool \<times> ('s, 'a) Input_scheme list \<times> ('s, 'b) Output_scheme list)" where
  "filterCallback toAddress addressList network tx st =
     (case st of (spentOutputs, unspentOutputs) \<Rightarrow>
        (case forEach (inputCallback toAddress addressList network) (inputs tx)
                (spentOutputs, False) of
           Inl e \<Rightarrow> Inl e
         | Inr (spentOutputs', isWalletTransaction) \<Rightarrow>
             (case forEach (outputCallback toAddress addressList network) (outputs tx)
                     (unspentOutputs, isWalletTransaction) of
                Inl e \<Rightarrow> Inl e
              | Inr (unspentOutputs', isWalletTransaction') \<Rightarrow>
                  Inr (isWalletTransaction', spentOutputs', unspentOutputs'))))"

text \<open>
  \<open>Array.prototype.filter\<close> with that callback: the elements are visited in order, the
  kept ones form a new array, a throw of the callback ends the call.
\<close>

fun filterArray ::
  "('t \<Rightarrow> 'st \<Rightarrow> error + (bool \<times> 'st)) \<Rightarrow> 't list \<Rightarrow> 'st \<Rightarrow> error + ('t list \<times> 'st)" where
  "filterArray f [] st = Inr ([], st)"
| "filterArray f (x # xs) st =
     (case f x st of
        Inl e \<Rightarrow> Inl e
      | Inr (keep, st') \<Rightarrow>
          (case filterArray f xs st' of
             Inl e \<Rightarrow> Inl e
           | Inr (kept, st'') \<Rightarrow> Inr (if keep then x # kept else kept, st'')))"

section \<open>The arrays as cells of a store\<close>

text \<open>
  \<open>push\<close> changes an array in place, so what a call of \<open>filterWalletTransactions\<close>
  changes depends on which arrays its pushes reach. Here the arrays are cells of a store:
  a reference is an index into the store, \<open>[]\<close> and \<open>filter\<close> allocate a new cell at the
  end, \<open>push\<close> replaces the cell it is called on. A transaction holds the references of
  its two arrays. Inputs, outputs and transactions are never assigned to by the function,
  so they stay values.
\<close>

type_synonym ref = nat

datatype ('s, 'a, 'b) array =
    TransactionArray "(ref, ref) Transaction list"
  | InputArray "('s, 'a) Input_scheme list"
  | OutputArray "('s, 'b) Output_scheme list"
  | StringArray "string list"

type_synonym ('s, 'a, 'b) heap = "('s, 'a, 'b) array list"

definition newArray :: "('s, 'a, 'b) array \<Rightarrow> ('s, 'a, 'b) heap \<Rightarrow> ref \<times> ('s, 'a, 'b) heap" where
  "newArray a h = (length h, h @ [a])"

definition arrayAt :: "('s, 'a, 'b) heap \<Rightarrow> ref \<Rightarrow> ('s, 'a, 'b) array option" where
  "arrayAt h r = (if r < length h then Some (h ! r) else None)"

text \<open>
  Reading an array of the kind that the JSDoc of the function declares. A reference that
  leads to no array of that kind is outside those types; the model throws there.
\<close>

definition transactionsAt ::
  "('s, 'a, 'b) heap \<Rightarrow> ref \<Rightarrow> error + (ref, ref) Transaction list" where
  "transactionsAt h r =
     (case arrayAt h r of
        Some (TransactionArray xs) \<Rightarrow> Inr xs
      | _ \<Rightarrow> Inl TypeError)"

definition inputsAt ::
  "('s, 'a, 'b) heap \<Rightarrow> ref \<Rightarrow> error + ('s, 'a) Input_scheme list" where
  "inputsAt h r =
     (case arrayAt h r of
        Some (InputArray xs) \<Rightarrow> Inr xs
      | _ \<Rightarrow> Inl TypeError)"

definition outputsAt ::
  "('s, 'a, 'b) heap \<Rightarrow> ref \<Rightarrow> error + ('s, 'b) Output_scheme list" where
  "outputsAt h r =
     (case arrayAt h r of
        Some (OutputArray xs) \<Rightarrow> Inr xs
      | _ \<Rightarrow> Inl TypeError)"

definition stringsAt :: "('s, 'a, 'b) heap \<Rightarrow> ref \<Rightarrow> error + string list" where
  "stringsAt h r =
     (case arrayAt h r of
        Some (StringArray xs) \<Rightarrow> Inr xs
      | _ \<Rightarrow> Inl TypeError)"

text \<open>\<open>Array.prototype.push\<close>: the cell of the array gets the element at its end.\<close>

definition pushTransaction ::
  "ref \<Rightarrow> (ref, ref) Transaction \<Rightarrow> ('s, 'a, 'b) heap \<Rightarrow> (error + unit) \<times> ('s, 'a, 'b) heap" where
  "pushTransaction r x h =
     (case transactionsAt h r of
        Inl e \<Rightarrow> (Inl e, h)
      | Inr xs \<Rightarrow> (Inr (), h[r := TransactionArray (xs @ [x])]))"

definition pushInput ::
  "ref \<Rightarrow> ('s, 'a) Input_scheme \<Rightarrow> ('s, 'a, 'b) heap \<Rightarrow> (error + unit) \<times> ('s, 'a, 'b) heap" where
  "pushInput r x h =
     (case inputsAt h r of
        Inl e \<Rightarrow> (Inl e, h)
      | Inr xs \<Rightarrow> (Inr (), h[r := InputArray (xs @ [x])]))"

definition pushOutput ::
  "ref \<Rightarrow> ('s, 'b) Output_scheme \<Rightarrow> ('s, 'a, 'b) heap \<Rightarrow> (error + unit) \<times> ('s, 'a, 'b) heap" where
  "pushOutput r x h =
     (case outputsAt h r of
        Inl e \<Rightarrow> (Inl e, h)
      | Inr xs \<Rightarrow> (Inr (), h[r := OutputArray (xs @ [x])]))"

text \<open>
  The loop of \<open>forEach\<close> and of \<open>filter\<close>: the length is read once, before the first
  call of the callback; the element at index \<open>k\<close> is read from the store when its turn
  comes, and an index that is no longer there is passed over. \<open>elements\<close> reads the
  array, \<open>v\<close> holds the variables that the callback assigns.
\<close>

function forEachFrom ::
  "('h \<Rightarrow> error + 'x list) \<Rightarrow> ('x \<Rightarrow> 'v \<Rightarrow> 'h \<Rightarrow> (error + 'v) \<times> 'h) \<Rightarrow>
   nat \<Rightarrow> nat \<Rightarrow> 'v \<Rightarrow> 'h \<Rightarrow> (error + 'v) \<times> 'h" where
  "forEachFrom elements f k len v h =
     (if k < len then
        (case elements h of
           Inl e \<Rightarrow> (Inl e, h)
         | Inr xs \<Rightarrow>
             if k < length xs then
               (case f (xs ! k) v h of
                  (Inl e, h') \<Rightarrow> (Inl e, h')
                | (Inr v', h') \<Rightarrow> forEachFrom elements f (Suc k) len v' h')
             else forEachFrom elements f (Suc k) len v h)
      else (Inr v, h))"
  by pat_completeness auto
termination
  by (relation "measure (\<lambda>(elements, f, k, len, v, h). len - k)") auto

declare forEachFrom.simps [simp del]

definition forEachArray ::
  "('h \<Rightarrow> error + 'x list) \<Rightarrow> ('x \<Rightarrow> 'v \<Rightarrow> 'h \<Rightarrow> (error + 'v) \<times> 'h) \<Rightarrow>
   'v \<Rightarrow> 'h \<Rightarrow> (error + 'v) \<times> 'h" where
  "forEachArray elements f v h =
     (case elements h of
        Inl e \<Rightarrow> (Inl e, h)
      | Inr xs \<Rightarrow> forEachFrom elements f 0 (length xs) v h)"

text \<open>
  The callbacks over the store. \<open>addressList\<close>, \<open>spentOutputs\<close> and \<open>unspentOutputs\<close>
  are the references that the closures hold; \<open>isWalletTransaction\<close> is the variable they
  assign.
\<close>

definition inputCallback_store ::
  "('s \<Rightarrow> string \<Rightarrow> string) \<Rightarrow> ref \<Rightarrow> string \<Rightarrow> ref \<Rightarrow>
   ('s, 'a) Input_scheme \<Rightarrow> bool \<Rightarrow> ('s, 'a, 'b) heap \<Rightarrow> (error + bool) \<times> ('s, 'a, 'b) heap" where
  "inputCallback_store toAddress addressList network spentOutputs input isWalletTransaction h =
     (case Input.script input of
        None \<Rightarrow> (Inr isWalletTransaction, h)
      | Some s \<Rightarrow>
          (let addr = toAddress s network in
           case stringsAt h addressList of
             Inl e \<Rightarrow> (Inl e, h)
           | Inr addresses \<Rightarrow>
               if includes_array addresses addr
               then (case pushInput spentOutputs input h of
                       (Inl e, h') \<Rightarrow> (Inl e, h')
                     | (Inr _, h') \<Rightarrow> (Inr True, h'))
               else (Inr isWalletTransaction, h)))"

definition outputCallback_store ::
  "('s \<Rightarrow> string \<Rightarrow> string) \<Rightarrow> ref \<Rightarrow> string \<Rightarrow> ref \<Rightarrow>
   ('s, 'b) Output_scheme \<Rightarrow> bool \<Rightarrow> ('s, 'a, 'b) heap \<Rightarrow> (error + bool) \<times> ('s, 'a, 'b) heap" where
  "outputCallback_store toAddress addressList network unspentOutputs output isWalletTransaction h =
     (case Output.script output of
        None \<Rightarrow> (Inl TypeError, h)
      | Some s \<Rightarrow>
          (let addr = toAddress s network in
           case stringsAt h addressList of
             Inl e \<Rightarrow> (Inl e, h)
           | Inr addresses \<Rightarrow>
               if includes_array addresses addr
               then (case pushOutput unspentOutputs output h of
                       (Inl e, h') \<Rightarrow> (Inl e, h')
                     | (Inr _, h') \<Rightarrow> (Inr True, h'))
               else (Inr isWalletTransaction, h)))"

definition filterCallback_store ::
  "('s \<Rightarrow> string \<Rightarrow> string) \<Rightarrow> ref \<Rightarrow> string \<Rightarrow> ref \<Rightarrow> ref \<Rightarrow>
   (ref, ref) Transaction \<Rightarrow> ('s, 'a, 'b) heap \<Rightarrow> (error + bool) \<times> ('s, 'a, 'b) heap" where
  "filterCallback_store toAddress addressList network spentOutputs unspentOutputs tx h =
     (case forEachArray (\<lambda>h. inputsAt h (inputs tx))
             (inputCallback_store toAddress addressList network spentOutputs) False h of
        (Inl e, h') \<Rightarrow> (Inl e, h')
      | (Inr isWalletTransaction, h') \<Rightarrow>
          forEachArray (\<lambda>h. outputsAt h (outputs tx))
            (outputCallback_store toAddress addressList network unspentOutputs)
            isWalletTransaction h')"

text \<open>
  \<open>Array.prototype.filter\<close> over the store: the length is read, the new array is
  allocated, and each element for which the callback returns true is pushed on it.
\<close>

definition filterArray_store ::
  "((ref, ref) Transaction \<Rightarrow> ('s, 'a, 'b) heap \<Rightarrow> (error + bool) \<times> ('s, 'a, 'b) heap) \<Rightarrow>
   ref \<Rightarrow> ('s, 'a, 'b) heap \<Rightarrow> (error + ref) \<times> ('s, 'a, 'b) heap" where
  "filterArray_store callback r h =
     (case transactionsAt h r of
        Inl e \<Rightarrow> (Inl e, h)
      | Inr xs \<Rightarrow>
          (let (kept, h1) = newArray (TransactionArray []) h
           in case forEachFrom (\<lambda>h. transactionsAt h r)
                     (\<lambda>x _ h. case callback x h of
                                 (Inl e, h') \<Rightarrow> (Inl e, h')
                               | (Inr keep, h') \<Rightarrow>
                                   if keep then pushTransaction kept x h' else (Inr (), h'))
                     0 (length xs) () h1 of
                (Inl e, h2) \<Rightarrow> (Inl e, h2)
              | (Inr _, h2) \<Rightarrow> (Inr kept, h2)))"

text \<open>
  The object literal that \<open>filterWalletTransactions\<close> returns. Its field names are
  constants from here on, so the parameter and the two arrays of the same names carry a
  prime in the definition below.
\<close>

record ('ts, 'is, 'os) WalletTransactions =
  transactions :: "'ts"
  spentOutputs :: "'is"
  unspentOutputs :: "'os"

definition filterWalletTransactions ::
  "('s \<Rightarrow> string \<Rightarrow> string) \<Rightarrow>
   (('s, 'a) Input_scheme list, ('s, 'b) Output_scheme list, 'c) Transaction_scheme list \<Rightarrow>
   string list \<Rightarrow> string \<Rightarrow>
   error + ((('s, 'a) Input_scheme list, ('s, 'b) Output_scheme list, 'c) Transaction_scheme list,
            ('s, 'a) Input_scheme list, ('s, 'b) Output_scheme list) WalletTransactions" where
  "filterWalletTransactions toAddress transactions' addressList network =
     (case filterArray (filterCallback toAddress addressList network) transactions' ([], []) of
        Inl e \<Rightarrow> Inl e
      | Inr (filteredTransactions, spentOutputs', unspentOutputs') \<Rightarrow>
          Inr \<lparr>transactions = filteredTransactions,
               spentOutputs = spentOutputs',
               unspentOutputs = unspentOutputs'\<rparr>)"

text \<open>
  \<open>filterWalletTransactions\<close> over the store: \<open>transactions'\<close> and \<open>addressList\<close> are
  the references it is called with, and the object it returns holds the references of
  three arrays. The store comes back with the result, also when the call throws.
\<close>

definition filterWalletTransactions_store ::
  "('s \<Rightarrow> string \<Rightarrow> string) \<Rightarrow> ref \<Rightarrow> ref \<Rightarrow> string \<Rightarrow> ('s, 'a, 'b) heap \<Rightarrow>
   (error + (ref, ref, ref) WalletTransactions) \<times> ('s, 'a, 'b) heap" where
  "filterWalletTransactions_store toAddress transactions' addressList network h =
     (let (spentOutputs', h1) = newArray (InputArray []) h;
          (unspentOutputs', h2) = newArray (OutputArray []) h1
      in case filterArray_store
                (filterCallback_store toAddress addressList network spentOutputs' unspentOutputs')
                transactions' h2 of
           (Inl e, h3) \<Rightarrow> (Inl e, h3)
         | (Inr filteredTransactions, h3) \<Rightarrow>
             (Inr \<lparr>transactions = filteredTransactions,
                   spentOutputs = spentOutputs',
                   unspentOutputs = unspentOutputs'\<rparr>, h3))"

text \<open>
  What the references stand for. A transaction of the store read as a value: its two
  arrays in place of their references. The arguments are well formed when the
  references lead to arrays of the declared kinds.
\<close>

definition contents ::
  "('s, 'a, 'b) heap \<Rightarrow> (ref, ref) Transaction \<Rightarrow>
   (('s, 'a) Input_scheme list, ('s, 'b) Output_scheme list) Transaction" where
  "contents h tx =
     \<lparr>inputs = (case inputsAt h (inputs tx) of Inr xs \<Rightarrow> xs | Inl _ \<Rightarrow> []),
      outputs = (case outputsAt h (outputs tx) of Inr xs \<Rightarrow> xs | Inl _ \<Rightarrow> [])\<rparr>"

definition wellFormedTransaction :: "('s, 'a, 'b) heap \<Rightarrow> (ref, ref) Transaction \<Rightarrow> bool" where
  "wellFormedTransaction h tx \<longleftrightarrow>
     (case inputsAt h (inputs tx) of Inr _ \<Rightarrow> True | Inl _ \<Rightarrow> False) \<and>
     (case outputsAt h (outputs tx) of Inr _ \<Rightarrow> True | Inl _ \<Rightarrow> False)"

definition wellFormed :: "('s, 'a, 'b) heap \<Rightarrow> ref \<Rightarrow> ref \<Rightarrow> bool" where
  "wellFormed h transactions' addressList \<longleftrightarrow>
     (case transactionsAt h transactions' of
        Inr txs \<Rightarrow> \<forall>tx \<in> set txs. wellFormedTransaction h tx
      | Inl _ \<Rightarrow> False) \<and>
     (case stringsAt h addressList of Inr _ \<Rightarrow> True | Inl _ \<Rightarrow> False)"

definition transactionValues ::
  "('s, 'a, 'b) heap \<Rightarrow> ref \<Rightarrow>
   (('s, 'a) Input_scheme list, ('s, 'b) Output_scheme list) Transaction list" where
  "transactionValues h r =
     (case transactionsAt h r of
        Inr txs \<Rightarrow> map (contents h) txs
      | Inl _ \<Rightarrow> [])"

definition addressValues :: "('s, 'a, 'b) heap \<Rightarrow> ref \<Rightarrow> string list" where
  "addressValues h r = (case stringsAt h r of Inr xs \<Rightarrow> xs | Inl _ \<Rightarrow> [])"

text \<open>The outcome of a call over the store read as a value: the throw, or the three arrays.\<close>

definition resultValues ::
  "(error + (ref, ref, ref) WalletTransactions) \<times> ('s, 'a, 'b) heap \<Rightarrow>
   error + ((('s, 'a) Input_scheme list, ('s, 'b) Output_scheme list) Transaction list,
            ('s, 'a) Input_scheme list, ('s, 'b) Output_scheme list) WalletTransactions" where
  "resultValues res =
     (case res of
        (Inl e, h) \<Rightarrow> Inl e
      | (Inr r, h) \<Rightarrow>
          (case inputsAt h (spentOutputs r) of
             Inl e \<Rightarrow> Inl e
           | Inr sp \<Rightarrow>
               (case outputsAt h (unspentOutputs r) of
                  Inl e \<Rightarrow> Inl e
                | Inr un \<Rightarrow>
                    Inr \<lparr>transactions = transactionValues h (transactions r),
                         spentOutputs = sp,
                         unspentOutputs = un\<rparr>)))"

section \<open>What the specification says of the matcher\<close>

text \<open>
  The specification's words, for comparison with the code: a script resolves to an
  address of the set; an input or an output is matched when its script does; a
  transaction is matched when one of its inputs or outputs is.
\<close>

definition resolvesTo ::
  "('s \<Rightarrow> string \<Rightarrow> string) \<Rightarrow> string list \<Rightarrow> string \<Rightarrow> 's option \<Rightarrow> bool" where
  "resolvesTo toAddress addressList network sc =
     (case sc of
        None \<Rightarrow> False
      | Some s \<Rightarrow> toAddress s network \<in> set addressList)"

definition matchedInput ::
  "('s \<Rightarrow> string \<Rightarrow> string) \<Rightarrow> string list \<Rightarrow> string \<Rightarrow> ('s, 'a) Input_scheme \<Rightarrow> bool" where
  "matchedInput toAddress addressList network input =
     resolvesTo toAddress addressList network (Input.script input)"

definition matchedOutput ::
  "('s \<Rightarrow> string \<Rightarrow> string) \<Rightarrow> string list \<Rightarrow> string \<Rightarrow> ('s, 'b) Output_scheme \<Rightarrow> bool" where
  "matchedOutput toAddress addressList network output =
     resolvesTo toAddress addressList network (Output.script output)"

definition matchedTransaction ::
  "('s \<Rightarrow> string \<Rightarrow> string) \<Rightarrow> string list \<Rightarrow> string \<Rightarrow>
   (('s, 'a) Input_scheme list, ('s, 'b) Output_scheme list, 'c) Transaction_scheme \<Rightarrow> bool" where
  "matchedTransaction toAddress addressList network tx \<longleftrightarrow>
     (\<exists>i \<in> set (inputs tx). matchedInput toAddress addressList network i) \<or>
     (\<exists>out \<in> set (outputs tx). matchedOutput toAddress addressList network out)"

text \<open>Every output of the transaction has a script.\<close>

definition scriptedOutputs ::
  "('is, ('s, 'b) Output_scheme list, 'c) Transaction_scheme \<Rightarrow> bool" where
  "scriptedOutputs tx \<longleftrightarrow> (\<forall>out \<in> set (outputs tx). Output.script out \<noteq> None)"

section \<open>Promises and async methods\<close>

text \<open>
  The settlement of a promise: \<open>Pending\<close> is a promise that never settles. An async
  method run on the worker \<open>this\<close> is a pair: the settlement of the promise it returns,
  and the worker as the method leaves it (at its end, at the throw, or at the
  \<open>await\<close> it never gets past).
\<close>

datatype ('e, 'a) promise = Pending | Rejected 'e | Fulfilled 'a

text \<open>
  \<open>await\<close> outside any \<open>try\<close>: the method goes on with the value of a fulfilled
  promise, rejects with the reason of a rejected one, and stays where it is on a promise
  that never settles.
\<close>

definition await ::
  "('e, 'a) promise \<times> 'w \<Rightarrow> ('a \<Rightarrow> 'w \<Rightarrow> ('e, 'b) promise \<times> 'w) \<Rightarrow> ('e, 'b) promise \<times> 'w" where
  "await m k =
     (case m of
        (Pending, w) \<Rightarrow> (Pending, w)
      | (Rejected e, w) \<Rightarrow> (Rejected e, w)
      | (Fulfilled a, w) \<Rightarrow> k a w)"

section \<open>The worker\<close>

text \<open>Values of the entries of an options object.\<close>

datatype jsvalue =
    JSUndefined
  | JSBoolean bool
  | JSNumber int
  | JSString string
  | JSArray "jsvalue list"

text \<open>
  The fields the constructor sets. \<open>workerOptions\<close> is the object it hands to the base
  class through \<open>super(...)\<close>; the base class \<open>Worker\<close> is not part of the sources.
\<close>

record ('st, 'p) TransactionSyncStreamWorker =
  workerOptions :: "string \<rightharpoonup> jsvalue"
  syncIncomingTransactions :: bool
  stream :: "'st option"
  incomingSyncPromise :: "'p option"

text \<open>
  The dependencies that \<open>onStart\<close> reads, injected after construction: the block header
  lookup of the transport, the store with the sync options, and the network.
\<close>

record Header =
  hash :: string

record 'e Transport =
  getBlockHeaderByHeight :: "nat \<Rightarrow> ('e, Header) promise"

record SyncOptions =
  skipSynchronizationBeforeHeight :: "nat option"

text \<open>
  \<open>blockHeight\<close> and \<open>blockHash\<close> are the checkpoint of the worker's account, named as
  in the store of the test of \<open>getLastSyncedBlockHash\<close>.
\<close>

record Store =
  syncOptions :: "SyncOptions option"
  blockHeight :: nat
  blockHash :: string

record Storage =
  store :: Store

record ('st, 'p, 'e) InjectedWorker = "('st, 'p) TransactionSyncStreamWorker" +
  storage :: Storage
  transport :: "'e Transport"
  network :: string

subsection \<open>constructor\<close>

text \<open>The object literal before \<open>...options\<close>.\<close>

definition defaultOptions :: "string \<rightharpoonup> jsvalue" where
  "defaultOptions =
     [''name'' \<mapsto> JSString ''TransactionSyncStreamWorker'',
      ''executeOnStart'' \<mapsto> JSBoolean True,
      ''firstExecutionRequired'' \<mapsto> JSBoolean True,
      ''workerIntervalTime'' \<mapsto> JSNumber 0,
      ''gapLimit'' \<mapsto> JSNumber 10,
      ''dependencies'' \<mapsto> JSArray
         [JSString ''importTransactions'',
          JSString ''importBlockHeader'',
          JSString ''importInstantLock'',
          JSString ''storage'',
          JSString ''transport'',
          JSString ''walletId'',
          JSString ''getAddress'',
          JSString ''network'',
          JSString ''index'',
          JSString ''BIP44PATH'',
          JSString ''walletType'']]"

text \<open>
  Object spread \<open>{ ...a, ...b }\<close>: the own properties of \<open>b\<close> replace those of \<open>a\<close>;
  spreading \<open>undefined\<close> adds nothing.
\<close>

definition spread :: "(string \<rightharpoonup> jsvalue) \<Rightarrow> (string \<rightharpoonup> jsvalue) option \<Rightarrow> (string \<rightharpoonup> jsvalue)" where
  "spread a b = (case b of None \<Rightarrow> a | Some b' \<Rightarrow> a ++ b')"

definition constructor ::
  "(string \<rightharpoonup> jsvalue) option \<Rightarrow> ('st, 'p) TransactionSyncStreamWorker" where
  "constructor options =
     \<lparr>workerOptions = spread defaultOptions options,
      syncIncomingTransactions = False,
      stream = None,
      incomingSyncPromise = None\<rparr>"

text \<open>
  Modelled from the spec: the base class \<open>Worker\<close> (\<open>../../Worker\<close>, not among the
  sources) keeps the \<open>gapLimit\<close> entry of the options it is given as the worker's
  \<open>gapLimit\<close> ("\<open>gapLimit\<close> (uint, default 10)").
\<close>

definition gapLimit :: "('st, 'p, 'z) TransactionSyncStreamWorker_scheme \<Rightarrow> jsvalue option" where
  "gapLimit this = workerOptions this ''gapLimit''"

subsection \<open>onStart\<close>

text \<open>
  The four methods of the checkpoint (\<open>./methods\<close>) are not among the sources. The
  specification has them write and read the pair
  \<open>(lastSyncedBlockHeight, lastSyncedBlockHash)\<close> of the worker's account in the
  Checkpoint Store.
\<close>

text \<open>
  Modelled from the spec: \<open>setLastSyncedBlockHeight(height)\<close>, not among the sources,
  writes the last synced block height of the worker's account.
\<close>

definition setLastSyncedBlockHeight ::
  "nat \<Rightarrow> ('st, 'p, 'e, 'z) InjectedWorker_scheme \<Rightarrow> ('st, 'p, 'e, 'z) InjectedWorker_scheme" where
  "setLastSyncedBlockHeight height this =
     this\<lparr>storage := (storage this)\<lparr>store := (store (storage this))\<lparr>blockHeight := height\<rparr>\<rparr>\<rparr>"

text \<open>
  Modelled from the spec: \<open>setLastSyncedBlockHash(hash)\<close>, not among the sources,
  writes the last synced block hash of the worker's account.
\<close>

definition setLastSyncedBlockHash ::
  "string \<Rightarrow> ('st, 'p, 'e, 'z) InjectedWorker_scheme \<Rightarrow> ('st, 'p, 'e, 'z) InjectedWorker_scheme" where
  "setLastSyncedBlockHash h this =
     this\<lparr>storage := (storage this)\<lparr>store := (store (storage this))\<lparr>blockHash := h\<rparr>\<rparr>\<rparr>"

text \<open>
  Modelled from the spec: \<open>getLastSyncedBlockHeight()\<close>, not among the sources, reads
  the last synced block height of the worker's account.
\<close>

definition getLastSyncedBlockHeight :: "('st, 'p, 'e, 'z) InjectedWorker_scheme \<Rightarrow> nat" where
  "getLastSyncedBlockHeight this = blockHeight (store (storage this))"

text \<open>
  Modelled from the spec: \<open>getLastSyncedBlockHash()\<close>, of which only the test is among
  the sources, reads the last synced block hash of the worker's account.
\<close>

definition getLastSyncedBlockHash :: "('st, 'p, 'e, 'z) InjectedWorker_scheme \<Rightarrow> string" where
  "getLastSyncedBlockHash this = blockHash (store (storage this))"

text \<open>
  The first half of \<open>onStart\<close>: the destructuring of
  \<open>this.storage.store.syncOptions || {}\<close> and the block under
  \<open>if (skipSynchronizationBeforeHeight)\<close>. The option is an optional unsigned integer;
  the test is JavaScript's truthiness, so neither \<open>undefined\<close> nor \<open>0\<close> enters the block.
\<close>

definition skipSynchronization ::
  "('st, 'p, 'e, 'z) InjectedWorker_scheme \<Rightarrow>
   ('e, unit) promise \<times> ('st, 'p, 'e, 'z) InjectedWorker_scheme" where
  "skipSynchronization this =
     (let skipSynchronizationBeforeHeight' =
            (case syncOptions (store (storage this)) of
               None \<Rightarrow> None
             | Some opts \<Rightarrow> skipSynchronizationBeforeHeight opts)
      in case skipSynchronizationBeforeHeight' of
           None \<Rightarrow> (Fulfilled (), this)
         | Some height \<Rightarrow>
             if height = 0 then (Fulfilled (), this)
             else
               await (getBlockHeaderByHeight (transport this) height, this)
                 (\<lambda>header this.
                    (Fulfilled (),
                     setLastSyncedBlockHash (hash header)
                       (setLastSyncedBlockHeight height this))))"

text \<open>
  \<open>startHistoricalSync\<close> (\<open>./methods/startHistoricalSync\<close>) is a parameter: an async
  method of the worker that takes the network.
\<close>

definition onStart ::
  "(string \<Rightarrow> ('st, 'p, 'e, 'z) InjectedWorker_scheme \<Rightarrow>
      ('e, 'a) promise \<times> ('st, 'p, 'e, 'z) InjectedWorker_scheme) \<Rightarrow>
   ('st, 'p, 'e, 'z) InjectedWorker_scheme \<Rightarrow>
   ('e, unit) promise \<times> ('st, 'p, 'e, 'z) InjectedWorker_scheme" where
  "onStart startHistoricalSync this =
     await (skipSynchronization this)
       (\<lambda>_ this.
          await (startHistoricalSync (network this) this)
            (\<lambda>_ this. (Fulfilled (), this)))"

subsection \<open>execute\<close>

text \<open>
  \<open>startIncomingSync\<close> (\<open>./methods/startIncomingSync\<close>) is a parameter: the call
  returns its promise, and the worker as the part of the method that runs before its
  first \<open>await\<close> leaves it. \<open>execute\<close> keeps the promise and does not await it.
\<close>

definition execute ::
  "(('st, 'p, 'z) TransactionSyncStreamWorker_scheme \<Rightarrow>
      'p \<times> ('st, 'p, 'z) TransactionSyncStreamWorker_scheme) \<Rightarrow>
   ('st, 'p, 'z) TransactionSyncStreamWorker_scheme \<Rightarrow>
   ('e, unit) promise \<times> ('st, 'p, 'z) TransactionSyncStreamWorker_scheme" where
  "execute startIncomingSync this =
     (let this1 = this\<lparr>syncIncomingTransactions := True\<rparr>;
          (p, this2) = startIncomingSync this1
      in (Fulfilled (), this2\<lparr>incomingSyncPromise := Some p\<rparr>))"

subsection \<open>onStop\<close>

text \<open>
  \<open>stream.cancel()\<close> belongs to the transport. The model records the call: the streams
  on which \<open>cancel\<close> has been called, in order.
\<close>

definition cancel :: "'st \<Rightarrow> 'st list \<Rightarrow> 'st list" where
  "cancel s cancelled = cancelled @ [s]"

definition onStop ::
  "('st, 'p, 'z) TransactionSyncStreamWorker_scheme \<Rightarrow> 'st list \<Rightarrow>
   ('e, unit) promise \<times> ('st, 'p, 'z) TransactionSyncStreamWorker_scheme \<times> 'st list" where
  "onStop this cancelled =
     (let this1 = this\<lparr>syncIncomingTransactions := False\<rparr>
      in case stream this1 of
           Some s \<Rightarrow>
             (let cancelled1 = cancel s cancelled;
                  this2 = this1\<lparr>stream := None\<rparr>
              in (Fulfilled (), this2, cancelled1))
         | None \<Rightarrow> (Fulfilled (), this1, cancelled))"

text \<open>
  Modelled from the spec: the handler of the stream's end (in
  \<open>./methods\<close>, not among the sources) reconnects exactly when the Stream Handle
  reference is still present; the comment in \<open>onStop\<close> says the same.
\<close>

definition reconnectsOnStreamEnd :: "('st, 'p, 'z) TransactionSyncStreamWorker_scheme \<Rightarrow> bool" where
  "reconnectsOnStreamEnd this \<longleftrightarrow> stream this \<noteq> None"

section \<open>Example values\<close>

text \<open>A stand-in for dashcore's address of a script: the network, a colon, the script.\<close>

definition exampleToAddress :: "string \<Rightarrow> string \<Rightarrow> string" where
  "exampleToAddress s network' = network' @ '':'' @ s"

definition coinbaseInput :: "string Input" where
  "coinbaseInput = \<lparr>Input.script = None\<rparr>"

definition walletInput :: "string Input" where
  "walletInput = \<lparr>Input.script = Some ''mine''\<rparr>"

definition foreignInput :: "string Input" where
  "foreignInput = \<lparr>Input.script = Some ''theirs''\<rparr>"

definition walletOutput :: "string Output" where
  "walletOutput = \<lparr>Output.script = Some ''mine''\<rparr>"

definition foreignOutput :: "string Output" where
  "foreignOutput = \<lparr>Output.script = Some ''theirs''\<rparr>"

definition unscriptedOutput :: "string Output" where
  "unscriptedOutput = \<lparr>Output.script = None\<rparr>"

definition exampleAddressList :: "string list" where
  "exampleAddressList = [''testnet:mine'']"

text \<open>
  A coinbase transaction paying someone else, a transaction that spends from the wallet
  and pays to it, and a transaction with an output that has no script.
\<close>

definition coinbaseTransaction :: "(string Input list, string Output list) Transaction" where
  "coinbaseTransaction = \<lparr>inputs = [coinbaseInput], outputs = [foreignOutput]\<rparr>"

definition walletTransaction :: "(string Input list, string Output list) Transaction" where
  "walletTransaction = \<lparr>inputs = [foreignInput, walletInput], outputs = [walletOutput]\<rparr>"

definition unscriptedTransaction :: "(string Input list, string Output list) Transaction" where
  "unscriptedTransaction = \<lparr>inputs = [walletInput], outputs = [walletOutput, unscriptedOutput]\<rparr>"

text \<open>
  A store with one transaction: cell 0 is the array of transactions, cells 1 and 2 are
  the arrays of its inputs and outputs, cell 3 is the address list.
\<close>

definition exampleHeap :: "(string, unit, unit) heap" where
  "exampleHeap =
     [TransactionArray [\<lparr>inputs = 1, outputs = 2\<rparr>],
      InputArray [walletInput, coinbaseInput],
      OutputArray [foreignOutput],
      StringArray exampleAddressList]"

text \<open>
  Another store with the same transaction and the same address list at other
  addresses, and one more array.
\<close>

definition exampleHeap2 :: "(string, unit, unit) heap" where
  "exampleHeap2 =
     [StringArray exampleAddressList,
      OutputArray [unscriptedOutput],
      OutputArray [foreignOutput],
      InputArray [walletInput, coinbaseInput],
      TransactionArray [\<lparr>inputs = 3, outputs = 2\<rparr>]]"

text \<open>Historical syncs: one that completes at once, one that fails.\<close>

definition idleHistoricalSync ::
  "string \<Rightarrow> ('st, 'p, 'e, 'z) InjectedWorker_scheme \<Rightarrow>
   ('e, unit) promise \<times> ('st, 'p, 'e, 'z) InjectedWorker_scheme" where
  "idleHistoricalSync network' this = (Fulfilled (), this)"

definition failingHistoricalSync ::
  "string \<Rightarrow> ('st, 'p, string, 'z) InjectedWorker_scheme \<Rightarrow>
   (string, unit) promise \<times> ('st, 'p, string, 'z) InjectedWorker_scheme" where
  "failingHistoricalSync network' this = (Rejected ''merkle proof mismatch'', this)"

text \<open>An incoming sync whose promise never settles.\<close>

definition endlessIncomingSync ::
  "('st, (string, unit) promise, 'z) TransactionSyncStreamWorker_scheme \<Rightarrow>
   (string, unit) promise \<times> ('st, (string, unit) promise, 'z) TransactionSyncStreamWorker_scheme" where
  "endlessIncomingSync this = (Pending, this)"

text \<open>A transport that knows the headers of two heights.\<close>

definition exampleHeaderByHeight :: "nat \<Rightarrow> (string, Header) promise" where
  "exampleHeaderByHeight height =
     (if height = 458971
      then Fulfilled \<lparr>hash = ''00000072edc9e031ff7aa3eb529511538c8a4899d5befea28848578e06c73313''\<rparr>
      else if height = 0 then Fulfilled \<lparr>hash = ''genesis''\<rparr>
      else Rejected ''not found'')"

text \<open>
  A worker whose checkpoint is at height 5, with the given
  \<open>skipSynchronizationBeforeHeight\<close>.
\<close>

definition exampleWorker ::
  "nat option \<Rightarrow> (nat, (string, unit) promise, string) InjectedWorker" where
  "exampleWorker skip =
     \<lparr>workerOptions = defaultOptions,
      syncIncomingTransactions = False,
      stream = None,
      incomingSyncPromise = None,
      storage = \<lparr>store = \<lparr>syncOptions = Some \<lparr>skipSynchronizationBeforeHeight = skip\<rparr>,
                           blockHeight = 5, blockHash = ''h5''\<rparr>\<rparr>,
      transport = \<lparr>getBlockHeaderByHeight = exampleHeaderByHeight\<rparr>,
      network = ''testnet''\<rparr>"

section \<open>Unfolding the examples\<close>

lemmas example_defs =
  coinbaseTransaction_def walletTransaction_def unscriptedTransaction_def
  exampleToAddress_def exampleAddressList_def coinbaseInput_def walletInput_def
  foreignInput_def walletOutput_def foreignOutput_def unscriptedOutput_def

lemmas code_defs =
  filterWalletTransactions_def filterCallback_def inputCallback_def
  outputCallback_def includes_array_def

section \<open>The loops of filterWalletTransactions\<close>

lemma forEach_inputCallback:
  "forEach (inputCallback t A n) xs (sp, w) =
     Inr (sp @ filter (matchedInput t A n) xs, w \<or> (\<exists>i \<in> set xs. matchedInput t A n i))"
  by (induction xs arbitrary: sp w)
     (auto simp: inputCallback_def matchedInput_def resolvesTo_def includes_array_def
           split: option.splits)

lemma forEach_outputCallback_ok:
  "\<forall>out \<in> set xs. Output.script out \<noteq> None \<Longrightarrow>
   forEach (outputCallback t A n) xs (un, w) =
     Inr (un @ filter (matchedOutput t A n) xs, w \<or> (\<exists>out \<in> set xs. matchedOutput t A n out))"
  by (induction xs arbitrary: un w)
     (auto simp: outputCallback_def matchedOutput_def resolvesTo_def includes_array_def
           split: option.splits)

lemma forEach_outputCallback_throws:
  "\<exists>out \<in> set xs. Output.script out = None \<Longrightarrow>
   forEach (outputCallback t A n) xs (un, w) = Inl TypeError"
  by (induction xs arbitrary: un w)
     (auto simp: outputCallback_def Let_def split: option.splits)

lemma filterCallback_ok:
  "scriptedOutputs tx \<Longrightarrow>
   filterCallback t A n tx (sp, un) =
     Inr (matchedTransaction t A n tx,
          sp @ filter (matchedInput t A n) (inputs tx),
          un @ filter (matchedOutput t A n) (outputs tx))"
  by (simp add: filterCallback_def forEach_inputCallback forEach_outputCallback_ok
        matchedTransaction_def scriptedOutputs_def)

lemma filterCallback_throws:
  "\<not> scriptedOutputs tx \<Longrightarrow> filterCallback t A n tx (sp, un) = Inl TypeError"
  by (simp add: filterCallback_def forEach_inputCallback forEach_outputCallback_throws
        scriptedOutputs_def)

lemma filterArray_ok:
  "\<forall>tx \<in> set T. scriptedOutputs tx \<Longrightarrow>
   filterArray (filterCallback t A n) T (sp, un) =
     Inr (filter (matchedTransaction t A n) T,
          sp @ concat (map (\<lambda>tx. filter (matchedInput t A n) (inputs tx)) T),
          un @ concat (map (\<lambda>tx. filter (matchedOutput t A n) (outputs tx)) T))"
  by (induction T arbitrary: sp un) (simp_all add: filterCallback_ok)

lemma filterArray_throws:
  "\<exists>tx \<in> set T. \<not> scriptedOutputs tx \<Longrightarrow>
   filterArray (filterCallback t A n) T (sp, un) = Inl TypeError"
proof (induction T arbitrary: sp un)
  case Nil
  then show ?case by simp
next
  case (Cons tx T)
  show ?case
  proof (cases "scriptedOutputs tx")
    case True
    with Cons.prems have "\<exists>tx \<in> set T. \<not> scriptedOutputs tx" by auto
    then show ?thesis using True by (simp add: filterCallback_ok Cons.IH)
  next
    case False
    then show ?thesis by (simp add: filterCallback_throws)
  qed
qed

lemma filterWalletTransactions_ok:
  "\<forall>tx \<in> set T. scriptedOutputs tx \<Longrightarrow>
   filterWalletTransactions t T A n =
     Inr \<lparr>transactions = filter (matchedTransaction t A n) T,
          spentOutputs = filter (matchedInput t A n) (concat (map inputs T)),
          unspentOutputs = filter (matchedOutput t A n) (concat (map outputs T))\<rparr>"
  by (simp add: filterWalletTransactions_def filterArray_ok filter_concat comp_def)

lemma filterWalletTransactions_throws:
  "\<exists>tx \<in> set T. \<not> scriptedOutputs tx \<Longrightarrow> filterWalletTransactions t T A n = Inl TypeError"
  by (simp add: filterWalletTransactions_def filterArray_throws)

lemma await_simps:
  "await (Pending, w) k = (Pending, w)"
  "await (Rejected e, w) k = (Rejected e, w)"
  "await (Fulfilled a, w) k = k a w"
  by (simp_all add: await_def)

section \<open>The store: what is allocated stays as it is\<close>

lemma forEachFrom_invariant_aux:
  "\<forall>x v h. P h \<longrightarrow> P (snd (f x v h)) \<Longrightarrow> P h \<Longrightarrow>
   P (snd (forEachFrom elements f k len v h))"
proof (induction elements f k len v h rule: forEachFrom.induct)
  case (1 elements f k len v h)
  note step = "1.prems"(1) and P = "1.prems"(2)
  show ?case
  proof (cases "k < len")
    case False
    then show ?thesis using P by (simp add: forEachFrom.simps [of _ _ k])
  next
    case True
    show ?thesis
    proof (cases "elements h")
      case (Inl e)
      then show ?thesis using True P by (simp add: forEachFrom.simps [of _ _ k])
    next
      case (Inr xs)
      show ?thesis
      proof (cases "k < length xs")
        case False
        then show ?thesis
          using True Inr "1.IH"(2) [OF True Inr False step P]
          by (simp add: forEachFrom.simps [of _ _ k])
      next
        case inside: True
        obtain res h' where call: "f (xs ! k) v h = (res, h')" by (cases "f (xs ! k) v h")
        have P': "P h'"
        proof -
          have "P (snd (f (xs ! k) v h))" using step P by blast
          then show ?thesis by (simp only: call snd_conv)
        qed
        show ?thesis
        proof (cases res)
          case (Inl e)
          then show ?thesis using True Inr inside call P'
            by (simp add: forEachFrom.simps [of _ _ k])
        next
          case (Inr v')
          then show ?thesis
            using True \<open>elements h = Inr xs\<close> inside call
              "1.IH"(1) [OF True \<open>elements h = Inr xs\<close> inside call [symmetric] _ step P']
            by (simp add: forEachFrom.simps [of _ _ k])
        qed
      qed
    qed
  qed
qed


lemma forEachFrom_invariant:
  assumes step: "\<And>x v h. P h \<Longrightarrow> P (snd (f x v h))" and P: "P h"
  shows "P (snd (forEachFrom elements f k len v h))"
proof -
  from step have "\<forall>x v h. P h \<longrightarrow> P (snd (f x v h))" by blast
  then show ?thesis using P by (rule forEachFrom_invariant_aux)
qed

lemma forEachArray_invariant:
  assumes step: "\<And>x v h. P h \<Longrightarrow> P (snd (f x v h))" and P: "P h"
  shows "P (snd (forEachArray elements f v h))"
proof (cases "elements h")
  case (Inl e)
  then show ?thesis using P by (simp add: forEachArray_def)
next
  case (Inr xs)
  have "P (snd (forEachFrom elements f 0 (length xs) v h))"
    using step P by (rule forEachFrom_invariant)
  then show ?thesis using Inr by (simp add: forEachArray_def)
qed

text \<open>The cells below \<open>n\<close> are those of the store before the call.\<close>

lemma take_newArray:
  "n \<le> length h \<Longrightarrow> take n (snd (newArray a h)) = take n h"
  by (simp add: newArray_def)

lemma take_pushInput:
  "n \<le> r \<Longrightarrow> take n (snd (pushInput r x h)) = take n h"
  by (simp add: pushInput_def split: sum.splits)

lemma take_pushOutput:
  "n \<le> r \<Longrightarrow> take n (snd (pushOutput r x h)) = take n h"
  by (simp add: pushOutput_def split: sum.splits)

lemma take_pushTransaction:
  "n \<le> r \<Longrightarrow> take n (snd (pushTransaction r x h)) = take n h"
  by (simp add: pushTransaction_def split: sum.splits)

lemma take_inputCallback_store:
  "n \<le> rs \<Longrightarrow> take n (snd (inputCallback_store t ra nw rs x w h)) = take n h"
  using take_pushInput [of n rs x h]
  by (auto simp: inputCallback_store_def Let_def split: option.splits sum.splits prod.splits)

lemma take_outputCallback_store:
  "n \<le> ru \<Longrightarrow> take n (snd (outputCallback_store t ra nw ru x w h)) = take n h"
  using take_pushOutput [of n ru x h]
  by (auto simp: outputCallback_store_def Let_def split: option.splits sum.splits prod.splits)

lemma take_filterCallback_store:
  assumes "n \<le> rs" and "n \<le> ru"
  shows "take n (snd (filterCallback_store t ra nw rs ru tx h)) = take n h"
proof -
  let ?P = "\<lambda>h'. take n h' = take n h"
  obtain res h1 where first:
    "forEachArray (\<lambda>h. inputsAt h (inputs tx)) (inputCallback_store t ra nw rs) False h = (res, h1)"
    by (cases "forEachArray (\<lambda>h. inputsAt h (inputs tx)) (inputCallback_store t ra nw rs) False h")
  have "?P (snd (forEachArray (\<lambda>h. inputsAt h (inputs tx)) (inputCallback_store t ra nw rs) False h))"
    by (rule forEachArray_invariant) (simp_all add: take_inputCallback_store assms)
  then have h1: "?P h1" by (simp add: first)
  show ?thesis
  proof (cases res)
    case (Inl e)
    then show ?thesis using first h1 by (simp add: filterCallback_store_def)
  next
    case (Inr w)
    have "?P (snd (forEachArray (\<lambda>h. outputsAt h (outputs tx))
                     (outputCallback_store t ra nw ru) w h1))"
      by (rule forEachArray_invariant) (simp_all add: take_outputCallback_store assms h1)
    then show ?thesis using first Inr by (simp add: filterCallback_store_def)
  qed
qed

lemma take_filterArray_store:
  assumes callback: "\<And>x h. take n (snd (callback x h)) = take n h"
    and n: "n \<le> length h"
  shows "take n (snd (filterArray_store callback r h)) = take n h"
proof (cases "transactionsAt h r")
  case (Inl e)
  then show ?thesis by (simp add: filterArray_store_def)
next
  case (Inr xs)
  let ?step = "\<lambda>x (_ :: unit) h0.
      case callback x h0 of
        (Inl e, h') \<Rightarrow> (Inl e, h')
      | (Inr keep, h') \<Rightarrow> if keep then pushTransaction (length h) x h' else (Inr (), h')"
  let ?P = "\<lambda>h'. take n h' = take n h"
  have step: "?P (snd (?step x v h'))" if P: "?P h'" for x and v :: unit and h'
  proof -
    obtain res h'' where call: "callback x h' = (res, h'')" by (cases "callback x h'")
    have h'': "take n h'' = take n h" using callback [of x h'] P by (simp add: call)
    show ?thesis
    proof (cases res)
      case (Inl e)
      then show ?thesis using call h'' by simp
    next
      case (Inr keep)
      have "take n (snd (pushTransaction (length h) x h'')) = take n h"
        using take_pushTransaction [OF n, of x h''] h'' by simp
      then show ?thesis using call h'' Inr by simp
    qed
  qed
  have start: "?P (h @ [TransactionArray []])" using n by simp
  have loop: "?P (snd (forEachFrom (\<lambda>h. transactionsAt h r) ?step 0 (length xs) ()
                         (h @ [TransactionArray []])))"
    using step start by (rule forEachFrom_invariant)
  obtain res h2 where run:
    "forEachFrom (\<lambda>h. transactionsAt h r) ?step 0 (length xs) () (h @ [TransactionArray []]) = (res, h2)"
    by (cases "forEachFrom (\<lambda>h. transactionsAt h r) ?step 0 (length xs) () (h @ [TransactionArray []])")
  have "snd (filterArray_store callback r h) = h2"
    using Inr run by (cases res) (simp_all add: filterArray_store_def newArray_def)
  then show ?thesis using loop run by simp
qed

lemma take_filterWalletTransactions_store:
  "take (length h) (snd (filterWalletTransactions_store t rT rA nw h)) = take (length h) h"
proof -
  let ?h2 = "h @ [InputArray [], OutputArray []]"
  let ?run = "filterArray_store (filterCallback_store t rA nw (length h) (Suc (length h))) rT ?h2"
  have frame: "take (length h) (snd ?run) = take (length h) ?h2"
    by (rule take_filterArray_store) (simp_all add: take_filterCallback_store)
  obtain res h3 where run: "?run = (res, h3)" by (cases ?run)
  have "snd (filterWalletTransactions_store t rT rA nw h) = h3"
    using run by (cases res) (simp_all add: filterWalletTransactions_store_def newArray_def)
  then show ?thesis using frame run by simp
qed

section \<open>The store: its loops follow the loops over the values\<close>

lemma forEachFrom_forEach:
  assumes el: "\<And>s. elements (S s) = Inr xs"
    and simE: "\<And>x s v e. x \<in> set xs \<Longrightarrow> g x (s, v) = Inl e \<Longrightarrow> fst (f x v (S s)) = Inl e"
    and simR: "\<And>x s v s' v'. x \<in> set xs \<Longrightarrow> g x (s, v) = Inr (s', v') \<Longrightarrow>
                 f x v (S s) = (Inr v', S s')"
  shows "case forEach g (drop k xs) (s, v) of
           Inl e \<Rightarrow> fst (forEachFrom elements f k (length xs) v (S s)) = Inl e
         | Inr (s', v') \<Rightarrow> forEachFrom elements f k (length xs) v (S s) = (Inr v', S s')"
proof (induction "length xs - k" arbitrary: k s v)
  case 0
  then have "drop k xs = []" and "\<not> k < length xs" by simp_all
  then show ?case by (simp add: forEachFrom.simps [of _ _ k])
next
  case (Suc m)
  then have k: "k < length xs" by simp
  then have dropk: "drop k xs = xs ! k # drop (Suc k) xs" by (simp add: Cons_nth_drop_Suc)
  have mem: "xs ! k \<in> set xs" using k by simp
  show ?case
  proof (cases "g (xs ! k) (s, v)")
    case (Inl e)
    obtain h' where "f (xs ! k) v (S s) = (Inl e, h')"
      using simE [OF mem Inl] by (cases "f (xs ! k) v (S s)") simp
    then show ?thesis
      using Inl k by (simp add: dropk forEachFrom.simps [of _ _ k] el)
  next
    case (Inr st)
    obtain s' v' where st: "st = (s', v')" by (cases st)
    have call: "f (xs ! k) v (S s) = (Inr v', S s')"
      using simR [OF mem] Inr st by simp
    have m: "m = length xs - Suc k" using Suc.hyps(2) by simp
    have unfold: "forEachFrom elements f k (length xs) v (S s) =
                  forEachFrom elements f (Suc k) (length xs) v' (S s')"
      using k call by (simp add: forEachFrom.simps [of _ _ k] el)
    have head: "forEach g (drop k xs) (s, v) = forEach g (drop (Suc k) xs) (s', v')"
      using Inr st by (simp add: dropk)
    note IH = Suc.hyps(1) [where k = "Suc k" and s = s' and v = v', OF m]
    show ?thesis
    proof (cases "forEach g (drop (Suc k) xs) (s', v')")
      case (Inl e)
      then have "fst (forEachFrom elements f (Suc k) (length xs) v' (S s')) = Inl e"
        using IH by simp
      then show ?thesis by (simp only: head unfold Inl sum.case)
    next
      case rest: (Inr st2)
      obtain s2 v2 where st2: "st2 = (s2, v2)" by (cases st2)
      have "forEachFrom elements f (Suc k) (length xs) v' (S s') = (Inr v2, S s2)"
        using IH rest st2 by simp
      then show ?thesis by (simp only: head unfold rest st2 sum.case prod.case)
    qed
  qed
qed

text \<open>Cells that exist are read the same in every longer store.\<close>

lemma arrayAt_append:
  "arrayAt h r = Some a \<Longrightarrow> arrayAt (h @ ys) r = Some a"
  by (simp add: arrayAt_def nth_append split: if_splits)

lemma inputsAt_append:
  assumes "inputsAt h r = Inr xs"
  shows "inputsAt (h @ ys) r = Inr xs"
proof -
  from assms have "arrayAt h r = Some (InputArray xs)"
    by (auto simp: inputsAt_def split: option.splits array.splits)
  then have "arrayAt (h @ ys) r = Some (InputArray xs)" by (rule arrayAt_append)
  then show ?thesis by (simp add: inputsAt_def)
qed

lemma outputsAt_append:
  assumes "outputsAt h r = Inr xs"
  shows "outputsAt (h @ ys) r = Inr xs"
proof -
  from assms have "arrayAt h r = Some (OutputArray xs)"
    by (auto simp: outputsAt_def split: option.splits array.splits)
  then have "arrayAt (h @ ys) r = Some (OutputArray xs)" by (rule arrayAt_append)
  then show ?thesis by (simp add: outputsAt_def)
qed

lemma stringsAt_append:
  assumes "stringsAt h r = Inr xs"
  shows "stringsAt (h @ ys) r = Inr xs"
proof -
  from assms have "arrayAt h r = Some (StringArray xs)"
    by (auto simp: stringsAt_def split: option.splits array.splits)
  then have "arrayAt (h @ ys) r = Some (StringArray xs)" by (rule arrayAt_append)
  then show ?thesis by (simp add: stringsAt_def)
qed

lemma transactionsAt_append:
  assumes "transactionsAt h r = Inr xs"
  shows "transactionsAt (h @ ys) r = Inr xs"
proof -
  from assms have "arrayAt h r = Some (TransactionArray xs)"
    by (auto simp: transactionsAt_def split: option.splits array.splits)
  then have "arrayAt (h @ ys) r = Some (TransactionArray xs)" by (rule arrayAt_append)
  then show ?thesis by (simp add: transactionsAt_def)
qed

text \<open>The three arrays of a call are the last three cells; a push changes its own.\<close>

lemma pushInput_new:
  "pushInput (length h) x (h @ [InputArray sp, b, c]) =
     (Inr (), h @ [InputArray (sp @ [x]), b, c])"
  by (simp add: pushInput_def inputsAt_def arrayAt_def)

lemma pushOutput_new:
  "pushOutput (Suc (length h)) x (h @ [a, OutputArray un, c]) =
     (Inr (), h @ [a, OutputArray (un @ [x]), c])"
  by (simp add: pushOutput_def outputsAt_def arrayAt_def nth_append list_update_append)

lemma pushTransaction_new:
  "pushTransaction (Suc (Suc (length h))) x (h @ [a, b, TransactionArray kp]) =
     (Inr (), h @ [a, b, TransactionArray (kp @ [x])])"
  by (simp add: pushTransaction_def transactionsAt_def arrayAt_def nth_append list_update_append)

lemma inputCallback_store_new:
  assumes "stringsAt h ra = Inr A"
    and "inputCallback t A nw x (sp, w) = Inr (sp', w')"
  shows "inputCallback_store t ra nw (length h) x w (h @ [InputArray sp, b, c]) =
           (Inr w', h @ [InputArray sp', b, c])"
  using assms(2) stringsAt_append [OF assms(1), of "[InputArray sp, b, c]"]
  by (auto simp: inputCallback_store_def inputCallback_def pushInput_new Let_def
        split: option.splits if_splits)

lemma outputCallback_store_new:
  assumes "stringsAt h ra = Inr A"
    and "outputCallback t A nw x (un, w) = Inr (un', w')"
  shows "outputCallback_store t ra nw (Suc (length h)) x w (h @ [a, OutputArray un, c]) =
           (Inr w', h @ [a, OutputArray un', c])"
  using assms(2) stringsAt_append [OF assms(1), of "[a, OutputArray un, c]"]
  by (auto simp: outputCallback_store_def outputCallback_def pushOutput_new Let_def
        split: option.splits if_splits)

lemma outputCallback_store_throws:
  assumes "outputCallback t A nw x (un, w) = Inl e"
  shows "fst (outputCallback_store t ra nw ru x w h) = Inl e"
  using assms
  by (auto simp: outputCallback_store_def outputCallback_def Let_def
        split: option.splits if_splits)

lemma forEachArray_inputs_new:
  assumes ins: "inputsAt h ri = Inr ins" and A: "stringsAt h ra = Inr A"
  shows "forEachArray (\<lambda>h. inputsAt h ri) (inputCallback_store t ra nw (length h)) w
           (h @ [InputArray sp, b, c]) =
         (Inr (w \<or> (\<exists>i \<in> set ins. matchedInput t A nw i)),
          h @ [InputArray (sp @ filter (matchedInput t A nw) ins), b, c])"
proof -
  let ?S = "\<lambda>sp. h @ [InputArray sp, b, c]"
  have el: "inputsAt (?S s) ri = Inr ins" for s
    using ins by (rule inputsAt_append)
  have "case forEach (inputCallback t A nw) (drop 0 ins) (sp, w) of
          Inl e \<Rightarrow> fst (forEachFrom (\<lambda>h. inputsAt h ri)
                          (inputCallback_store t ra nw (length h)) 0 (length ins) w (?S sp)) = Inl e
        | Inr (s', v') \<Rightarrow>
            forEachFrom (\<lambda>h. inputsAt h ri)
              (inputCallback_store t ra nw (length h)) 0 (length ins) w (?S sp) = (Inr v', ?S s')"
  proof (rule forEachFrom_forEach [where S = ?S])
    show "inputsAt (?S s) ri = Inr ins" for s by (rule el)
    show "fst (inputCallback_store t ra nw (length h) x v (?S s)) = Inl e"
      if "inputCallback t A nw x (s, v) = Inl e" for x s v e
      using that by (simp add: inputCallback_def Let_def split: option.splits if_splits)
    show "inputCallback_store t ra nw (length h) x v (?S s) = (Inr v', ?S s')"
      if "inputCallback t A nw x (s, v) = Inr (s', v')" for x s v s' v'
      using A that by (rule inputCallback_store_new)
  qed
  then have "forEachFrom (\<lambda>h. inputsAt h ri)
               (inputCallback_store t ra nw (length h)) 0 (length ins) w (?S sp) =
             (Inr (w \<or> (\<exists>i \<in> set ins. matchedInput t A nw i)),
              ?S (sp @ filter (matchedInput t A nw) ins))"
    by (simp add: forEach_inputCallback)
  then show ?thesis by (simp add: forEachArray_def el)
qed

lemma forEachArray_outputs_new:
  assumes outs: "outputsAt h ro = Inr outs" and A: "stringsAt h ra = Inr A"
  shows "case forEach (outputCallback t A nw) outs (un, w) of
           Inl e \<Rightarrow>
             fst (forEachArray (\<lambda>h. outputsAt h ro)
                    (outputCallback_store t ra nw (Suc (length h))) w
                    (h @ [a, OutputArray un, c])) = Inl e
         | Inr (un', w') \<Rightarrow>
             forEachArray (\<lambda>h. outputsAt h ro)
               (outputCallback_store t ra nw (Suc (length h))) w
               (h @ [a, OutputArray un, c]) =
             (Inr w', h @ [a, OutputArray un', c])"
proof -
  let ?S = "\<lambda>un. h @ [a, OutputArray un, c]"
  have el: "outputsAt (?S s) ro = Inr outs" for s
    using outs by (rule outputsAt_append)
  have "case forEach (outputCallback t A nw) (drop 0 outs) (un, w) of
          Inl e \<Rightarrow> fst (forEachFrom (\<lambda>h. outputsAt h ro)
                          (outputCallback_store t ra nw (Suc (length h))) 0 (length outs) w (?S un)) = Inl e
        | Inr (s', v') \<Rightarrow>
            forEachFrom (\<lambda>h. outputsAt h ro)
              (outputCallback_store t ra nw (Suc (length h))) 0 (length outs) w (?S un) = (Inr v', ?S s')"
  proof (rule forEachFrom_forEach [where S = ?S])
    show "outputsAt (?S s) ro = Inr outs" for s by (rule el)
    show "fst (outputCallback_store t ra nw (Suc (length h)) x v (?S s)) = Inl e"
      if "outputCallback t A nw x (s, v) = Inl e" for x s v e
      using that by (rule outputCallback_store_throws)
    show "outputCallback_store t ra nw (Suc (length h)) x v (?S s) = (Inr v', ?S s')"
      if "outputCallback t A nw x (s, v) = Inr (s', v')" for x s v s' v'
      using A that by (rule outputCallback_store_new)
  qed
  moreover have "forEachArray (\<lambda>h. outputsAt h ro)
                   (outputCallback_store t ra nw (Suc (length h))) w (?S un) =
                 forEachFrom (\<lambda>h. outputsAt h ro)
                   (outputCallback_store t ra nw (Suc (length h))) 0 (length outs) w (?S un)"
    by (simp add: forEachArray_def el)
  ultimately show ?thesis by (simp only: drop_0)
qed

lemma filterCallback_store_new:
  assumes ins: "inputsAt h (inputs tx) = Inr ins"
    and outs: "outputsAt h (outputs tx) = Inr outs"
    and A: "stringsAt h ra = Inr A"
  shows "case filterCallback t A nw \<lparr>inputs = ins, outputs = outs\<rparr> (sp, un) of
           Inl e \<Rightarrow>
             fst (filterCallback_store t ra nw (length h) (Suc (length h)) tx
                    (h @ [InputArray sp, OutputArray un, c])) = Inl e
         | Inr (keep, sp', un') \<Rightarrow>
             filterCallback_store t ra nw (length h) (Suc (length h)) tx
               (h @ [InputArray sp, OutputArray un, c]) =
             (Inr keep, h @ [InputArray sp', OutputArray un', c])"
proof -
  let ?w1 = "\<exists>i \<in> set ins. matchedInput t A nw i"
  let ?sp1 = "sp @ filter (matchedInput t A nw) ins"
  have first: "forEachArray (\<lambda>h. inputsAt h (inputs tx))
                 (inputCallback_store t ra nw (length h)) False
                 (h @ [InputArray sp, OutputArray un, c]) =
               (Inr ?w1, h @ [InputArray ?sp1, OutputArray un, c])"
    using forEachArray_inputs_new
      [OF ins A, where t = t and nw = nw and w = False and sp = sp and b = "OutputArray un" and c = c]
    by simp
  have store: "filterCallback_store t ra nw (length h) (Suc (length h)) tx
                 (h @ [InputArray sp, OutputArray un, c]) =
               forEachArray (\<lambda>h. outputsAt h (outputs tx))
                 (outputCallback_store t ra nw (Suc (length h))) ?w1
                 (h @ [InputArray ?sp1, OutputArray un, c])"
    by (simp add: filterCallback_store_def first)
  note second = forEachArray_outputs_new
    [OF outs A, where t = t and nw = nw and un = un and w = ?w1 and a = "InputArray ?sp1" and c = c]
  show ?thesis
  proof (cases "forEach (outputCallback t A nw) outs (un, ?w1)")
    case (Inl e)
    then have "filterCallback t A nw \<lparr>inputs = ins, outputs = outs\<rparr> (sp, un) = Inl e"
      by (simp add: filterCallback_def forEach_inputCallback)
    moreover have "fst (filterCallback_store t ra nw (length h) (Suc (length h)) tx
                          (h @ [InputArray sp, OutputArray un, c])) = Inl e"
      using second Inl by (simp add: store)
    ultimately show ?thesis by simp
  next
    case (Inr st)
    obtain un' w' where st: "st = (un', w')" by (cases st)
    have "filterCallback t A nw \<lparr>inputs = ins, outputs = outs\<rparr> (sp, un) = Inr (w', ?sp1, un')"
      using Inr st by (simp add: filterCallback_def forEach_inputCallback)
    moreover have "filterCallback_store t ra nw (length h) (Suc (length h)) tx
                     (h @ [InputArray sp, OutputArray un, c]) =
                   (Inr w', h @ [InputArray ?sp1, OutputArray un', c])"
      using second Inr st by (simp add: store)
    ultimately show ?thesis by simp
  qed
qed

lemma contents_wellFormed:
  assumes "wellFormedTransaction h tx"
  shows "inputsAt h (inputs tx) = Inr (inputs (contents h tx))"
    and "outputsAt h (outputs tx) = Inr (outputs (contents h tx))"
  using assms by (auto simp: wellFormedTransaction_def contents_def split: sum.splits)

lemma contents_append:
  assumes "wellFormedTransaction h tx"
  shows "contents (h @ ys) tx = contents h tx"
  using inputsAt_append [OF contents_wellFormed(1) [OF assms], of ys]
    outputsAt_append [OF contents_wellFormed(2) [OF assms], of ys]
  by (simp add: contents_def)

text \<open>
  One round of \<open>filter\<close> on values: the callback on the transaction that \<open>c\<close> reads
  from the store, then the push on the kept ones.
\<close>

lemma forEach_filterStep_ok:
  fixes c :: "'tx \<Rightarrow> (('s, 'a) Input_scheme list, ('s, 'b) Output_scheme list) Transaction"
    and t :: "'s \<Rightarrow> string \<Rightarrow> string" and A :: "string list" and nw :: string
  defines "g \<equiv> \<lambda>tx st. case st of ((sp, un, kp), u :: unit) \<Rightarrow>
             (case filterCallback t A nw (c tx) (sp, un) of
                Inl e \<Rightarrow> Inl e
              | Inr (keep, sp', un') \<Rightarrow> Inr ((sp', un', if keep then kp @ [tx] else kp), ()))"
  assumes "\<forall>tx \<in> set xs. scriptedOutputs (c tx)"
  shows "forEach g xs ((sp, un, kp), ()) =
           Inr ((sp @ concat (map (\<lambda>tx. filter (matchedInput t A nw) (inputs (c tx))) xs),
                 un @ concat (map (\<lambda>tx. filter (matchedOutput t A nw) (outputs (c tx))) xs),
                 kp @ filter (\<lambda>tx. matchedTransaction t A nw (c tx)) xs), ())"
  using assms(2)
  by (induction xs arbitrary: sp un kp) (simp_all add: g_def filterCallback_ok)

lemma forEach_filterStep_throws:
  fixes c :: "'tx \<Rightarrow> (('s, 'a) Input_scheme list, ('s, 'b) Output_scheme list) Transaction"
    and t :: "'s \<Rightarrow> string \<Rightarrow> string" and A :: "string list" and nw :: string
  defines "g \<equiv> \<lambda>tx st. case st of ((sp, un, kp), u :: unit) \<Rightarrow>
             (case filterCallback t A nw (c tx) (sp, un) of
                Inl e \<Rightarrow> Inl e
              | Inr (keep, sp', un') \<Rightarrow> Inr ((sp', un', if keep then kp @ [tx] else kp), ()))"
  assumes "\<exists>tx \<in> set xs. \<not> scriptedOutputs (c tx)"
  shows "forEach g xs ((sp, un, kp), ()) = Inl TypeError"
  using assms(2)
proof (induction xs arbitrary: sp un kp)
  case Nil
  then show ?case by simp
next
  case (Cons tx xs)
  show ?case
  proof (cases "scriptedOutputs (c tx)")
    case True
    with Cons.prems have "\<exists>tx \<in> set xs. \<not> scriptedOutputs (c tx)" by auto
    then show ?thesis using True by (simp add: g_def filterCallback_ok Cons.IH [unfolded g_def])
  next
    case False
    then show ?thesis by (simp add: g_def filterCallback_throws)
  qed
qed

lemma filterArray_store_new:
  fixes h :: "('s, 'a, 'b) heap"
    and t :: "'s \<Rightarrow> string \<Rightarrow> string" and A :: "string list" and nw :: string
  defines "g \<equiv> \<lambda>tx st. case st of ((sp, un, kp), u :: unit) \<Rightarrow>
             (case filterCallback t A nw (contents h tx) (sp, un) of
                Inl e \<Rightarrow> Inl e
              | Inr (keep, sp', un') \<Rightarrow> Inr ((sp', un', if keep then kp @ [tx] else kp), ()))"
  assumes txs: "transactionsAt h rT = Inr txs"
    and wf: "\<forall>tx \<in> set txs. wellFormedTransaction h tx"
    and A: "stringsAt h rA = Inr A"
  shows "case forEach g txs (([], [], []), ()) of
           Inl e \<Rightarrow>
             fst (filterArray_store (filterCallback_store t rA nw (length h) (Suc (length h))) rT
                    (h @ [InputArray [], OutputArray []])) = Inl e
         | Inr ((sp, un, kp), _) \<Rightarrow>
             filterArray_store (filterCallback_store t rA nw (length h) (Suc (length h))) rT
               (h @ [InputArray [], OutputArray []]) =
             (Inr (Suc (Suc (length h))),
              h @ [InputArray sp, OutputArray un, TransactionArray kp])"
proof -
  let ?S = "\<lambda>s. case s of (sp, un, kp) \<Rightarrow>
              h @ [InputArray sp, OutputArray un, TransactionArray kp]"
  let ?cb = "filterCallback_store t rA nw (length h) (Suc (length h))"
  let ?f = "\<lambda>x (_ :: unit) h0.
              case ?cb x h0 of
                (Inl e, h') \<Rightarrow> (Inl e, h')
              | (Inr keep, h') \<Rightarrow>
                  if keep then pushTransaction (Suc (Suc (length h))) x h' else (Inr (), h')"
  let ?loop = "forEachFrom (\<lambda>h. transactionsAt h rT) ?f 0 (length txs) () (?S ([], [], []))"
  have callback: "case filterCallback t A nw (contents h x) (sp, un) of
                    Inl e \<Rightarrow>
                      fst (?cb x (h @ [InputArray sp, OutputArray un, TransactionArray kp])) = Inl e
                  | Inr (keep, sp', un') \<Rightarrow>
                      ?cb x (h @ [InputArray sp, OutputArray un, TransactionArray kp]) =
                      (Inr keep, h @ [InputArray sp', OutputArray un', TransactionArray kp])"
    if "x \<in> set txs" for x sp un kp
  proof -
    have x: "wellFormedTransaction h x" using wf that by simp
    have eq: "\<lparr>inputs = inputs (contents h x), outputs = outputs (contents h x)\<rparr> = contents h x"
      by simp
    show ?thesis
      using filterCallback_store_new
        [OF contents_wellFormed(1) [OF x] contents_wellFormed(2) [OF x] A,
         where t = t and nw = nw and sp = sp and un = un and c = "TransactionArray kp"]
      unfolding eq .
  qed
  have loop: "case forEach g (drop 0 txs) (([], [], []), ()) of
                Inl e \<Rightarrow> fst ?loop = Inl e
              | Inr (s', v') \<Rightarrow> ?loop = (Inr v', ?S s')"
  proof (rule forEachFrom_forEach [where S = ?S])
    show "transactionsAt (?S s) rT = Inr txs" for s
      using transactionsAt_append [OF txs] by (cases s) simp
    show "fst (?f x v (?S s)) = Inl e" if "x \<in> set txs" and "g x (s, v) = Inl e" for x s v e
    proof -
      obtain sp un kp where s: "s = (sp, un, kp)" by (cases s)
      from that(2) have "filterCallback t A nw (contents h x) (sp, un) = Inl e"
        by (simp add: g_def s split: sum.splits prod.splits)
      with callback [OF that(1), of sp un kp]
      have "fst (?cb x (?S (sp, un, kp))) = Inl e" by simp
      then show ?thesis by (cases "?cb x (?S (sp, un, kp))") (simp add: s)
    qed
    show "?f x v (?S s) = (Inr v', ?S s')"
      if "x \<in> set txs" and "g x (s, v) = Inr (s', v')" for x s v s' v'
    proof -
      obtain sp un kp where s: "s = (sp, un, kp)" by (cases s)
      from that(2) obtain keep sp' un' where
        fc: "filterCallback t A nw (contents h x) (sp, un) = Inr (keep, sp', un')"
        and s': "s' = (sp', un', if keep then kp @ [x] else kp)"
        by (auto simp: g_def s split: sum.splits prod.splits)
      from callback [OF that(1), of sp un kp] fc
      have "?cb x (?S (sp, un, kp)) = (Inr keep, ?S (sp', un', kp))" by simp
      then show ?thesis by (simp add: s s' pushTransaction_new)
    qed
  qed
  have run: "filterArray_store ?cb rT (h @ [InputArray [], OutputArray []]) =
               (case ?loop of
                  (Inl e, h2) \<Rightarrow> (Inl e, h2)
                | (Inr _, h2) \<Rightarrow> (Inr (Suc (Suc (length h))), h2))"
    using transactionsAt_append [OF txs, of "[InputArray [], OutputArray []]"]
    by (simp add: filterArray_store_def newArray_def)
  show ?thesis
  proof (cases "forEach g txs (([], [], []), ())")
    case (Inl e)
    with loop have "fst ?loop = Inl e" by simp
    then have "fst (filterArray_store ?cb rT (h @ [InputArray [], OutputArray []])) = Inl e"
      by (cases ?loop) (simp add: run)
    then show ?thesis using Inl by simp
  next
    case (Inr st)
    obtain sp un kp v' where st: "st = ((sp, un, kp), v')" by (cases st) auto
    with loop Inr have "?loop = (Inr v', ?S (sp, un, kp))" by simp
    then have "filterArray_store ?cb rT (h @ [InputArray [], OutputArray []]) =
                 (Inr (Suc (Suc (length h))), ?S (sp, un, kp))"
      by (simp add: run)
    then show ?thesis using Inr st by simp
  qed
qed

lemma newCells:
  "inputsAt (h @ [InputArray sp, b, c]) (length h) = Inr sp"
  "outputsAt (h @ [a, OutputArray un, c]) (Suc (length h)) = Inr un"
  "transactionsAt (h @ [a, b, TransactionArray kp]) (Suc (Suc (length h))) = Inr kp"
  by (simp_all add: inputsAt_def outputsAt_def transactionsAt_def arrayAt_def nth_append)

lemma filterWalletTransactions_store_values:
  fixes h :: "('s, 'a, 'b) heap"
  assumes "wellFormed h rT rA"
  shows "resultValues (filterWalletTransactions_store t rT rA nw h) =
           filterWalletTransactions t (transactionValues h rT) (addressValues h rA) nw"
proof -
  from assms obtain txs A where txs: "transactionsAt h rT = Inr txs"
    and wf: "\<forall>tx \<in> set txs. wellFormedTransaction h tx"
    and A: "stringsAt h rA = Inr A"
    by (auto simp: wellFormed_def split: sum.splits)
  let ?c = "contents h"
  let ?fa = "filterArray_store (filterCallback_store t rA nw (length h) (Suc (length h))) rT
               (h @ [InputArray [], OutputArray []])"
  have vals: "transactionValues h rT = map ?c txs" "addressValues h rA = A"
    by (simp_all add: transactionValues_def addressValues_def txs A)
  have run: "filterWalletTransactions_store t rT rA nw h =
               (case ?fa of
                  (Inl e, h3) \<Rightarrow> (Inl e, h3)
                | (Inr ft, h3) \<Rightarrow>
                    (Inr \<lparr>transactions = ft, spentOutputs = length h,
                          unspentOutputs = Suc (length h)\<rparr>, h3))"
    by (simp add: filterWalletTransactions_store_def newArray_def split: prod.splits sum.splits)
  note fa = filterArray_store_new [OF txs wf A, where t = t and nw = nw]
  show ?thesis
  proof (cases "\<forall>tx \<in> set txs. scriptedOutputs (?c tx)")
    case True
    let ?sp = "concat (map (\<lambda>tx. filter (matchedInput t A nw) (inputs (?c tx))) txs)"
    let ?un = "concat (map (\<lambda>tx. filter (matchedOutput t A nw) (outputs (?c tx))) txs)"
    let ?kp = "filter (\<lambda>tx. matchedTransaction t A nw (?c tx)) txs"
    let ?h' = "h @ [InputArray ?sp, OutputArray ?un, TransactionArray ?kp]"
    have "?fa = (Inr (Suc (Suc (length h))), ?h')"
      using fa forEach_filterStep_ok [OF True, where t = t and A = A and nw = nw
          and sp = "[]" and un = "[]" and kp = "[]"]
      by simp
    then have store: "filterWalletTransactions_store t rT rA nw h =
                        (Inr \<lparr>transactions = Suc (Suc (length h)), spentOutputs = length h,
                              unspentOutputs = Suc (length h)\<rparr>, ?h')"
      by (simp add: run)
    have "map (contents ?h') ?kp = map ?c ?kp"
      using wf by (intro map_cong refl contents_append) simp
    then have kept: "transactionValues ?h' (Suc (Suc (length h))) = map ?c ?kp"
      by (simp add: transactionValues_def newCells)
    have lhs: "resultValues (filterWalletTransactions_store t rT rA nw h) =
                 Inr \<lparr>transactions = map ?c ?kp, spentOutputs = ?sp, unspentOutputs = ?un\<rparr>"
      by (simp add: store resultValues_def newCells kept)
    have "\<forall>tx \<in> set (map ?c txs). scriptedOutputs tx" using True by simp
    then have rhs: "filterWalletTransactions t (map ?c txs) A nw =
                 Inr \<lparr>transactions = filter (matchedTransaction t A nw) (map ?c txs),
                      spentOutputs = filter (matchedInput t A nw) (concat (map inputs (map ?c txs))),
                      unspentOutputs = filter (matchedOutput t A nw) (concat (map outputs (map ?c txs)))\<rparr>"
      by (rule filterWalletTransactions_ok)
    show ?thesis
      by (simp add: lhs rhs vals filter_map filter_concat comp_def)
  next
    case False
    then have ex: "\<exists>tx \<in> set txs. \<not> scriptedOutputs (?c tx)" by simp
    have "fst ?fa = Inl TypeError"
      using fa forEach_filterStep_throws [OF ex, where t = t and A = A and nw = nw
          and sp = "[]" and un = "[]" and kp = "[]"]
      by simp
    then have lhs: "resultValues (filterWalletTransactions_store t rT rA nw h) = Inl TypeError"
      by (cases ?fa) (simp add: run resultValues_def)
    have "\<exists>tx \<in> set (map ?c txs). \<not> scriptedOutputs tx" using ex by simp
    then have "filterWalletTransactions t (map ?c txs) A nw = Inl TypeError"
      by (rule filterWalletTransactions_throws)
    then show ?thesis by (simp add: lhs vals)
  qed
qed

section \<open>The matcher\<close>

text \<open>
  C1, as the code has it. The claim, for every list of transactions:
  \<open>filterWalletTransactions\<close> returns the transactions with a matched input or output,
  and the matched inputs and outputs, without duplicates. It fails on two inputs. A
  transaction with an output that has no script makes the call throw, so nothing is
  returned; and a transaction listed twice has its matched input pushed twice.
\<close>

theorem filterWalletTransactions_counterexample:
  "filterWalletTransactions exampleToAddress
     [\<lparr>inputs = [walletInput], outputs = [unscriptedOutput]\<rparr>]
     exampleAddressList ''testnet'' = Inl TypeError \<and>
   filterWalletTransactions exampleToAddress
     [\<lparr>inputs = [walletInput], outputs = [foreignOutput]\<rparr>,
      \<lparr>inputs = [walletInput], outputs = [foreignOutput]\<rparr>]
     exampleAddressList ''testnet'' =
   Inr \<lparr>transactions =
          [\<lparr>inputs = [walletInput], outputs = [foreignOutput]\<rparr>,
           \<lparr>inputs = [walletInput], outputs = [foreignOutput]\<rparr>],
        spentOutputs = [walletInput, walletInput],
        unspentOutputs = []\<rparr>"
  by (simp add: filterWalletTransactions_def filterCallback_def inputCallback_def
        outputCallback_def includes_array_def exampleToAddress_def exampleAddressList_def
        walletInput_def foreignOutput_def unscriptedOutput_def)

text \<open>
  C1, amended. When every output of every transaction has a script, the call returns;
  \<open>transactions\<close> is the list of the matched transactions in their order,
  \<open>spentOutputs\<close> the matched inputs and \<open>unspentOutputs\<close> the matched outputs of all
  the transactions, in their order, once for each occurrence: so without duplicates
  when no input (no output) occurs twice in the list.
\<close>

theorem filterWalletTransactions_matches:
  assumes "\<forall>tx \<in> set T. \<forall>out \<in> set (outputs tx). Output.script out \<noteq> None"
  shows "\<exists>r. filterWalletTransactions toAddress T addressList n = Inr r \<and>
           transactions r = filter (matchedTransaction toAddress addressList n) T \<and>
           spentOutputs r = filter (matchedInput toAddress addressList n) (concat (map inputs T)) \<and>
           unspentOutputs r = filter (matchedOutput toAddress addressList n) (concat (map outputs T)) \<and>
           (distinct (concat (map inputs T)) \<longrightarrow> distinct (spentOutputs r)) \<and>
           (distinct (concat (map outputs T)) \<longrightarrow> distinct (unspentOutputs r))"
proof -
  from assms have "\<forall>tx \<in> set T. scriptedOutputs tx"
    by (simp add: scriptedOutputs_def)
  then show ?thesis
    by (simp add: filterWalletTransactions_ok)
qed

theorem filterWalletTransactions_matches_witness:
  "distinct (concat (map inputs [coinbaseTransaction, walletTransaction])) \<and>
   distinct (concat (map outputs [coinbaseTransaction, walletTransaction])) \<and>
   filterWalletTransactions exampleToAddress [coinbaseTransaction, walletTransaction]
     exampleAddressList ''testnet'' =
   Inr \<lparr>transactions = [walletTransaction],
        spentOutputs = [walletInput],
        unspentOutputs = [walletOutput]\<rparr>"
  using filterWalletTransactions_matches
    [of "[coinbaseTransaction, walletTransaction]" exampleToAddress exampleAddressList "''testnet''"]
  by (auto simp: matchedTransaction_def matchedInput_def matchedOutput_def resolvesTo_def
        example_defs)

text \<open>
  C8. An input without a script is skipped: the callback of the inputs leaves
  \<open>spentOutputs\<close> and \<open>isWalletTransaction\<close> as they are and does not throw; whatever
  throws in \<open>filterWalletTransactions\<close> is an output without a script, never an input;
  no input without a script is in the returned \<open>spentOutputs\<close>, and every returned
  transaction has a matched input with a script or a matched output.
\<close>

theorem scriptless_input_skipped:
  "(Input.script input = None \<longrightarrow>
      inputCallback toAddress addressList n input st = Inr st) \<and>
   (\<forall>e. filterWalletTransactions toAddress T addressList n = Inl e \<longrightarrow>
      (\<exists>tx \<in> set T. \<exists>out \<in> set (outputs tx). Output.script out = None)) \<and>
   (\<forall>r. filterWalletTransactions toAddress T addressList n = Inr r \<longrightarrow>
      (\<forall>i \<in> set (spentOutputs r). Input.script i \<noteq> None) \<and>
      (\<forall>tx \<in> set (transactions r).
         (\<exists>i \<in> set (inputs tx). Input.script i \<noteq> None \<and> matchedInput toAddress addressList n i) \<or>
         (\<exists>out \<in> set (outputs tx). matchedOutput toAddress addressList n out)))"
proof (intro conjI allI impI)
  assume "Input.script input = None"
  then show "inputCallback toAddress addressList n input st = Inr st"
    by (simp add: inputCallback_def split: prod.splits)
next
  fix e
  assume "filterWalletTransactions toAddress T addressList n = Inl e"
  then have "\<not> (\<forall>tx \<in> set T. scriptedOutputs tx)"
    using filterWalletTransactions_ok [of T toAddress addressList n] by auto
  then show "\<exists>tx \<in> set T. \<exists>out \<in> set (outputs tx). Output.script out = None"
    by (simp add: scriptedOutputs_def)
next
  fix r
  assume r: "filterWalletTransactions toAddress T addressList n = Inr r"
  then have "\<forall>tx \<in> set T. scriptedOutputs tx"
    using filterWalletTransactions_throws [of T toAddress addressList n] by auto
  then have eq: "r = \<lparr>transactions = filter (matchedTransaction toAddress addressList n) T,
          spentOutputs = filter (matchedInput toAddress addressList n) (concat (map inputs T)),
          unspentOutputs = filter (matchedOutput toAddress addressList n) (concat (map outputs T))\<rparr>"
    using r by (simp add: filterWalletTransactions_ok)
  show "\<forall>i \<in> set (spentOutputs r). Input.script i \<noteq> None"
    by (auto simp: eq matchedInput_def resolvesTo_def split: option.splits)
  show "\<forall>tx \<in> set (transactions r).
         (\<exists>i \<in> set (inputs tx). Input.script i \<noteq> None \<and> matchedInput toAddress addressList n i) \<or>
         (\<exists>out \<in> set (outputs tx). matchedOutput toAddress addressList n out)"
    by (auto simp: eq matchedTransaction_def matchedInput_def resolvesTo_def split: option.splits)
qed

theorem scriptless_input_skipped_witness:
  "inputCallback exampleToAddress exampleAddressList ''testnet'' coinbaseInput ([walletInput], False)
     = Inr ([walletInput], False) \<and>
   filterWalletTransactions exampleToAddress [coinbaseTransaction, walletTransaction]
     exampleAddressList ''testnet''
     = Inr \<lparr>transactions = [walletTransaction],
            spentOutputs = [walletInput],
            unspentOutputs = [walletOutput]\<rparr> \<and>
   filterWalletTransactions exampleToAddress [coinbaseTransaction, unscriptedTransaction]
     exampleAddressList ''testnet'' = Inl TypeError"
  using scriptless_input_skipped
    [of coinbaseInput exampleToAddress exampleAddressList "''testnet''" "([walletInput], False)"
        "[coinbaseTransaction, walletTransaction]"]
    scriptless_input_skipped
    [of coinbaseInput exampleToAddress exampleAddressList "''testnet''" "([walletInput], False)"
        "[coinbaseTransaction, unscriptedTransaction]"]
  by (simp add: code_defs example_defs)

text \<open>
  C9. The script of every output is dereferenced without a guard:
  \<open>filterWalletTransactions\<close> throws a \<open>TypeError\<close> exactly when some output of some
  transaction of the list has no script, and returns a result exactly when every output
  has one. The scripts of the inputs play no part in it.
\<close>

theorem filterWalletTransactions_throws_iff:
  "(filterWalletTransactions toAddress T addressList n = Inl TypeError \<longleftrightarrow>
      (\<exists>tx \<in> set T. \<exists>out \<in> set (outputs tx). Output.script out = None)) \<and>
   ((\<exists>r. filterWalletTransactions toAddress T addressList n = Inr r) \<longleftrightarrow>
      (\<forall>tx \<in> set T. \<forall>out \<in> set (outputs tx). Output.script out \<noteq> None))"
proof (cases "\<forall>tx \<in> set T. scriptedOutputs tx")
  case True
  then show ?thesis
    using filterWalletTransactions_ok [OF True, of toAddress addressList n]
    by (auto simp: scriptedOutputs_def)
next
  case False
  then have "\<exists>tx \<in> set T. \<not> scriptedOutputs tx" by simp
  then show ?thesis
    using filterWalletTransactions_throws [of T toAddress addressList n]
    by (auto simp: scriptedOutputs_def)
qed

theorem filterWalletTransactions_throws_iff_witness:
  "filterWalletTransactions exampleToAddress [coinbaseTransaction, unscriptedTransaction]
     exampleAddressList ''testnet'' = Inl TypeError \<and>
   (\<exists>r. filterWalletTransactions exampleToAddress [coinbaseTransaction, walletTransaction]
     exampleAddressList ''testnet'' = Inr r)"
  using filterWalletTransactions_throws_iff
    [of exampleToAddress "[coinbaseTransaction, unscriptedTransaction]"
        exampleAddressList "''testnet''"]
    filterWalletTransactions_throws_iff
    [of exampleToAddress "[coinbaseTransaction, walletTransaction]"
        exampleAddressList "''testnet''"]
  by (simp add: example_defs)

text \<open>
  C5. With the arrays as cells of a store: after a call of \<open>filterWalletTransactions\<close>,
  whether it returns or throws, every cell that existed before the call (the two
  arguments, the arrays of the transactions, and any other) holds what it held, so the
  call writes to nothing but the arrays it allocates. On well-formed arguments the
  outcome, read as values, is the function \<open>filterWalletTransactions\<close> of the values of
  the arguments; so two calls whose arguments have the same values, in whatever stores,
  have the same outcome.
\<close>

theorem filterWalletTransactions_pure:
  "take (length h) (snd (filterWalletTransactions_store toAddress rT rA n h)) = h \<and>
   (wellFormed h rT rA \<longrightarrow>
      resultValues (filterWalletTransactions_store toAddress rT rA n h) =
        filterWalletTransactions toAddress (transactionValues h rT) (addressValues h rA) n) \<and>
   (wellFormed h rT rA \<and> wellFormed h2 rT2 rA2 \<and>
    transactionValues h rT = transactionValues h2 rT2 \<and>
    addressValues h rA = addressValues h2 rA2 \<longrightarrow>
      resultValues (filterWalletTransactions_store toAddress rT rA n h) =
      resultValues (filterWalletTransactions_store toAddress rT2 rA2 n h2))"
  using take_filterWalletTransactions_store [of h toAddress rT rA n]
    filterWalletTransactions_store_values [of h rT rA toAddress n]
    filterWalletTransactions_store_values [of h2 rT2 rA2 toAddress n]
  by simp

theorem filterWalletTransactions_pure_witness:
  "wellFormed exampleHeap 0 3 \<and> wellFormed exampleHeap2 4 0 \<and>
   take 4 (snd (filterWalletTransactions_store exampleToAddress 0 3 ''testnet'' exampleHeap)) =
     exampleHeap \<and>
   resultValues (filterWalletTransactions_store exampleToAddress 0 3 ''testnet'' exampleHeap) =
     Inr \<lparr>transactions = [\<lparr>inputs = [walletInput, coinbaseInput], outputs = [foreignOutput]\<rparr>],
          spentOutputs = [walletInput],
          unspentOutputs = []\<rparr> \<and>
   resultValues (filterWalletTransactions_store exampleToAddress 4 0 ''testnet'' exampleHeap2) =
   resultValues (filterWalletTransactions_store exampleToAddress 0 3 ''testnet'' exampleHeap)"
proof -
  have wf: "wellFormed exampleHeap 0 3" "wellFormed exampleHeap2 4 0"
    by (simp_all add: wellFormed_def wellFormedTransaction_def transactionsAt_def inputsAt_def
          outputsAt_def stringsAt_def arrayAt_def exampleHeap_def exampleHeap2_def)
  have tv: "transactionValues exampleHeap 0 =
              [\<lparr>inputs = [walletInput, coinbaseInput], outputs = [foreignOutput]\<rparr>]"
    "transactionValues exampleHeap2 4 =
              [\<lparr>inputs = [walletInput, coinbaseInput], outputs = [foreignOutput]\<rparr>]"
    by (simp_all add: transactionValues_def contents_def transactionsAt_def inputsAt_def
          outputsAt_def arrayAt_def exampleHeap_def exampleHeap2_def)
  have av: "addressValues exampleHeap 3 = exampleAddressList"
    "addressValues exampleHeap2 0 = exampleAddressList"
    by (simp_all add: addressValues_def stringsAt_def arrayAt_def exampleHeap_def exampleHeap2_def)
  have len: "length exampleHeap = 4" by (simp add: exampleHeap_def)
  have v: "filterWalletTransactions exampleToAddress
             [\<lparr>inputs = [walletInput, coinbaseInput], outputs = [foreignOutput]\<rparr>]
             exampleAddressList ''testnet'' =
           Inr \<lparr>transactions = [\<lparr>inputs = [walletInput, coinbaseInput], outputs = [foreignOutput]\<rparr>],
                spentOutputs = [walletInput],
                unspentOutputs = []\<rparr>"
    by (simp add: code_defs example_defs)
  show ?thesis
    using filterWalletTransactions_pure
      [of exampleHeap exampleToAddress 0 3 "''testnet''" exampleHeap2 4 0] wf
    by (auto simp: tv av len v)
qed

section \<open>The worker's lifecycle\<close>

text \<open>
  C2, as the code has it. The claim: whenever \<open>skipSynchronizationBeforeHeight\<close> is
  set, \<open>onStart\<close> writes that height and the hash of its header to the checkpoint before
  the historical sync starts. The option is tested for truthiness: set to \<open>0\<close>, with a
  checkpoint at height 5, \<open>onStart\<close> writes nothing, and a historical sync that changes
  nothing leaves the checkpoint at height 5.
\<close>

theorem onStart_skip_zero_counterexample:
  "syncOptions (store (storage (exampleWorker (Some 0)))) =
     Some \<lparr>skipSynchronizationBeforeHeight = Some 0\<rparr> \<and>
   getBlockHeaderByHeight (transport (exampleWorker (Some 0))) 0 = Fulfilled \<lparr>hash = ''genesis''\<rparr> \<and>
   onStart idleHistoricalSync (exampleWorker (Some 0)) = (Fulfilled (), exampleWorker (Some 0)) \<and>
   getLastSyncedBlockHeight (exampleWorker (Some 0)) = 5 \<and>
   getLastSyncedBlockHash (exampleWorker (Some 0)) = ''h5''"
  by (simp add: onStart_def skipSynchronization_def await_simps idleHistoricalSync_def
        exampleWorker_def exampleHeaderByHeight_def getLastSyncedBlockHeight_def
        getLastSyncedBlockHash_def)

text \<open>
  C2, amended. When \<open>skipSynchronizationBeforeHeight\<close> is set to a height other than
  \<open>0\<close> and \<open>getBlockHeaderByHeight\<close> returns a header for it, \<open>onStart\<close> starts the
  historical sync on a worker whose checkpoint already holds that height and the hash of
  that header, and does nothing else than await it.
\<close>

theorem onStart_fast_forwards_checkpoint:
  assumes "syncOptions (store (storage this)) = Some opts"
    and "skipSynchronizationBeforeHeight opts = Some height"
    and "height \<noteq> 0"
    and "getBlockHeaderByHeight (transport this) height = Fulfilled header"
  shows "let this' = setLastSyncedBlockHash (hash header) (setLastSyncedBlockHeight height this)
         in getLastSyncedBlockHeight this' = height \<and>
            getLastSyncedBlockHash this' = hash header \<and>
            onStart startHistoricalSync this =
              await (startHistoricalSync (network this) this') (\<lambda>_ this. (Fulfilled (), this))"
  using assms
  by (simp add: onStart_def skipSynchronization_def await_simps Let_def
        setLastSyncedBlockHash_def setLastSyncedBlockHeight_def
        getLastSyncedBlockHash_def getLastSyncedBlockHeight_def)

theorem onStart_fast_forwards_checkpoint_witness:
  "getLastSyncedBlockHeight (snd (onStart idleHistoricalSync (exampleWorker (Some 458971)))) = 458971 \<and>
   getLastSyncedBlockHash (snd (onStart idleHistoricalSync (exampleWorker (Some 458971)))) =
     ''00000072edc9e031ff7aa3eb529511538c8a4899d5befea28848578e06c73313''"
  using onStart_fast_forwards_checkpoint
    [of "exampleWorker (Some 458971)" "\<lparr>skipSynchronizationBeforeHeight = Some 458971\<rparr>" 458971
        "\<lparr>hash = ''00000072edc9e031ff7aa3eb529511538c8a4899d5befea28848578e06c73313''\<rparr>"
        idleHistoricalSync]
  by (simp add: exampleWorker_def exampleHeaderByHeight_def idleHistoricalSync_def await_simps
        Let_def)

text \<open>
  C4. \<open>onStart\<close> awaits \<open>startHistoricalSync\<close> outside any \<open>try\<close>: when the first
  half of \<open>onStart\<close> completes and the historical sync it starts rejects, \<open>onStart\<close>
  rejects with the same reason, leaving the worker as the historical sync left it.
\<close>

theorem onStart_propagates_failure:
  assumes "skipSynchronization this = (Fulfilled (), this')"
    and "startHistoricalSync (network this') this' = (Rejected e, this'')"
  shows "onStart startHistoricalSync this = (Rejected e, this'')"
  using assms by (simp add: onStart_def await_simps)

theorem onStart_propagates_failure_witness:
  "onStart failingHistoricalSync (exampleWorker None) =
     (Rejected ''merkle proof mismatch'', exampleWorker None) \<and>
   fst (onStart failingHistoricalSync (exampleWorker (Some 458971))) =
     Rejected ''merkle proof mismatch''"
proof -
  have a: "skipSynchronization (exampleWorker None) = (Fulfilled (), exampleWorker None)"
    by (simp add: skipSynchronization_def exampleWorker_def)
  have c: "skipSynchronization (exampleWorker (Some 458971)) =
             (Fulfilled (),
              setLastSyncedBlockHash ''00000072edc9e031ff7aa3eb529511538c8a4899d5befea28848578e06c73313''
                (setLastSyncedBlockHeight 458971 (exampleWorker (Some 458971))))"
    by (simp add: skipSynchronization_def exampleWorker_def exampleHeaderByHeight_def await_simps)
  have d: "failingHistoricalSync n w = (Rejected ''merkle proof mismatch'', w)" for n
    and w :: "(nat, (string, unit) promise, string) InjectedWorker"
    by (simp add: failingHistoricalSync_def)
  show ?thesis
    using onStart_propagates_failure
        [where this = "exampleWorker None" and startHistoricalSync = failingHistoricalSync, OF a d]
      onStart_propagates_failure
        [where this = "exampleWorker (Some 458971)" and startHistoricalSync = failingHistoricalSync,
         OF c d]
    by simp
qed

text \<open>
  C7. \<open>execute\<close> does not await the incoming sync: whatever promise
  \<open>startIncomingSync\<close> returns, also one that never settles, \<open>execute\<close> completes. It
  calls \<open>startIncomingSync\<close> on the worker with \<open>syncIncomingTransactions\<close> set, and
  keeps the returned promise in \<open>incomingSyncPromise\<close>; the flag is still set afterwards
  unless the called method itself changes it.
\<close>

theorem execute_does_not_await:
  "(fst (execute startIncomingSync this) :: ('e, unit) promise) = Fulfilled () \<and>
   incomingSyncPromise (snd (execute startIncomingSync this :: ('e, unit) promise \<times> _)) =
     Some (fst (startIncomingSync (this\<lparr>syncIncomingTransactions := True\<rparr>))) \<and>
   ((\<forall>w. syncIncomingTransactions (snd (startIncomingSync w)) = syncIncomingTransactions w)
      \<longrightarrow> syncIncomingTransactions (snd (execute startIncomingSync this :: ('e, unit) promise \<times> _)))"
  by (simp add: execute_def Let_def split_beta)

theorem execute_does_not_await_witness:
  "(execute endlessIncomingSync (exampleWorker None) :: (string, unit) promise \<times> _) =
     (Fulfilled (),
      exampleWorker None\<lparr>syncIncomingTransactions := True, incomingSyncPromise := Some Pending\<rparr>)"
  using execute_does_not_await [of endlessIncomingSync "exampleWorker None", where ?'e = string]
  by (simp add: execute_def endlessIncomingSync_def)

text \<open>
  C3. \<open>onStop\<close> completes in one step, without an \<open>await\<close>. It clears
  \<open>syncIncomingTransactions\<close>; when a stream is present it calls \<open>cancel\<close> on that
  stream once and sets \<open>stream\<close> to \<open>null\<close> in the same step, and when none is
  present it calls \<open>cancel\<close> on nothing. Afterwards the reference is absent, so the end of
  the stream is not answered by a reconnect.
\<close>

theorem onStop_cancels_stream:
  "(case onStop this cancelled of
      (p, this', cancelled') \<Rightarrow>
        p = Fulfilled () \<and>
        \<not> syncIncomingTransactions this' \<and>
        stream this' = None \<and>
        (\<forall>s. stream this = Some s \<longrightarrow> cancelled' = cancelled @ [s]) \<and>
        (stream this = None \<longrightarrow> cancelled' = cancelled) \<and>
        \<not> reconnectsOnStreamEnd this')"
  by (simp add: onStop_def cancel_def reconnectsOnStreamEnd_def Let_def split: option.splits)

theorem onStop_cancels_stream_witness:
  "onStop (exampleWorker None\<lparr>stream := Some 7, syncIncomingTransactions := True\<rparr>) [3] =
     (Fulfilled (), exampleWorker None, [3, 7]) \<and>
   onStop (exampleWorker None) [3] = (Fulfilled (), exampleWorker None, [3])"
  using onStop_cancels_stream
      [of "exampleWorker None\<lparr>stream := Some 7, syncIncomingTransactions := True\<rparr>" "[3]"]
    onStop_cancels_stream [of "exampleWorker None" "[3]"]
  by (simp add: onStop_def cancel_def exampleWorker_def)

text \<open>
  C10. \<open>onStop\<close> changes no field of the worker other than
  \<open>syncIncomingTransactions\<close> and \<open>stream\<close>: the worker it leaves is the one it was
  given with those two fields replaced. The options, the promise of the incoming sync,
  the storage with its checkpoint, the transport, the network and every further field
  are as before.
\<close>

theorem onStop_frame:
  "(case onStop this cancelled of
      (p, this', cancelled') \<Rightarrow>
        this' = this\<lparr>syncIncomingTransactions := syncIncomingTransactions this',
                     stream := stream this'\<rparr> \<and>
        workerOptions this' = workerOptions this \<and>
        incomingSyncPromise this' = incomingSyncPromise this \<and>
        storage this' = storage this \<and>
        getLastSyncedBlockHeight this' = getLastSyncedBlockHeight this \<and>
        getLastSyncedBlockHash this' = getLastSyncedBlockHash this \<and>
        transport this' = transport this \<and>
        network this' = network this \<and>
        InjectedWorker.more this' = InjectedWorker.more this)"
  by (simp add: onStop_def Let_def getLastSyncedBlockHeight_def getLastSyncedBlockHash_def
        split: option.splits)

theorem onStop_frame_witness:
  "getLastSyncedBlockHeight
     (fst (snd (onStop (exampleWorker None\<lparr>stream := Some 7\<rparr>) []))) = 5 \<and>
   getLastSyncedBlockHash
     (fst (snd (onStop (exampleWorker None\<lparr>stream := Some 7\<rparr>) []))) = ''h5''"
  using onStop_frame [of "exampleWorker None\<lparr>stream := Some 7\<rparr>" "[]"]
  by (simp add: onStop_def cancel_def getLastSyncedBlockHeight_def getLastSyncedBlockHash_def
        exampleWorker_def)

text \<open>
  C6. The options given to the constructor come after the defaults in the object handed
  to the base class: without options, or with options that have no \<open>gapLimit\<close>, the
  \<open>gapLimit\<close> of that object, and so of the worker, is 10; a \<open>gapLimit\<close> in the
  options replaces it.
\<close>

theorem constructor_gapLimit:
  fixes this :: "('st, 'p) TransactionSyncStreamWorker"
  assumes "this = constructor options"
  shows "(options = None \<or> (\<exists>m. options = Some m \<and> m ''gapLimit'' = None)
            \<longrightarrow> workerOptions this ''gapLimit'' = Some (JSNumber 10) \<and>
                gapLimit this = Some (JSNumber 10)) \<and>
         (\<forall>m g. options = Some m \<and> m ''gapLimit'' = Some g
            \<longrightarrow> workerOptions this ''gapLimit'' = Some g \<and> gapLimit this = Some g)"
  using assms
  by (auto simp: gapLimit_def constructor_def spread_def defaultOptions_def map_add_def)

theorem constructor_gapLimit_witness:
  "gapLimit (constructor None :: (nat, nat) TransactionSyncStreamWorker) = Some (JSNumber 10) \<and>
   gapLimit (constructor (Some [''name'' \<mapsto> JSString ''w''])
               :: (nat, nat) TransactionSyncStreamWorker) = Some (JSNumber 10) \<and>
   gapLimit (constructor (Some [''gapLimit'' \<mapsto> JSNumber 20])
               :: (nat, nat) TransactionSyncStreamWorker) = Some (JSNumber 20)"
  using constructor_gapLimit [OF refl, of None, where ?'st = nat and ?'p = nat]
    constructor_gapLimit [OF refl, of "Some [''name'' \<mapsto> JSString ''w'']", where ?'st = nat and ?'p = nat]
    constructor_gapLimit [OF refl, of "Some [''gapLimit'' \<mapsto> JSNumber 20]", where ?'st = nat and ?'p = nat]
  by simp

end
